theory Spec2Isabelle
  imports Main "HOL-Library.Word" "HOL-Library.Char_ord" "HOL-Library.List_Lexorder"
begin

section \<open>SecureBox: the data model of src/models.py\<close>

text \<open>
  The theory embeds the classes \<open>SymmetricKey\<close>, \<open>Container\<close> and \<open>Vault\<close> of
  \<^verbatim>\<open>src/models.py\<close>. Python's \<open>str\<close> is \<open>string\<close>, \<open>bytes\<close> is a list of 8-bit words,
  \<open>int\<close> is \<open>int\<close>, a \<open>dict\<close> is an association list in insertion order whose keys are
  distinct, and a value read from a JSON document is a \<open>json\<close> (Python checks its type only
  where it is used). An exception is a value: a function that can raise returns a sum,
  \<open>Inl\<close> the exception. The two pieces of process-wide state, the class attribute
  \<open>Container.next_id\<close> and the operating system's random source, and the files on disk are
  the fields of a \<open>world\<close> that is passed through every call that touches them.
\<close>

subsection \<open>Values and exceptions\<close>

type_synonym byte = "8 word"
type_synonym bytes = "byte list"

datatype json =
    JNull
  | JBool bool
  | JInt int
  | JStr string
  | JList "json list"
  | JDict "(string \<times> json) list"

text \<open>The exception classes of the interpreter and of the libraries, with their message.\<close>

datatype exc =
    ValueError string
  | TypeError string
  | KeyError string
  | AttributeError string
  | UnicodeDecodeError string
  | JSONDecodeError string
  | BinasciiError string
  | FileNotFoundError string

text \<open>
  What a method of the model can raise: an exception of the interpreter or of a library,
  or one of the two exception classes that models.py declares.
\<close>

datatype error =
    Raised exc
  | LoadContainerError string
  | LoadVaultError string

subsection \<open>The libraries models.py calls\<close>

text \<open>
  hashlib, hmac, Crypto.Cipher.AES, json, base64, the UTF-8 codec, the builtin \<open>int()\<close> on
  a string and \<open>Crypto.Random\<close> are not code of the repository. They are the fields of a
  record that every function of the model takes as its first argument:
  \<^item> \<open>pbkdf2_hmac pw salt\<close> is \<^verbatim>\<open>hashlib.pbkdf2_hmac("sha256", pw, salt, 500000, 32)\<close>;
  \<^item> \<open>hmac_hexdigest k m\<close> is \<^verbatim>\<open>hmac.new(k, m, hashlib.sha256).hexdigest()\<close>;
  \<^item> \<open>aes_cbc_encrypt k iv d\<close> is \<^verbatim>\<open>AES.new(k, AES.MODE_CBC, iv).encrypt(d)\<close>, and likewise
    \<open>aes_cbc_decrypt\<close>;
  \<^item> \<open>json_dumps indent v\<close> is \<^verbatim>\<open>json.dumps(v, indent=indent)\<close>, \<open>json_loads\<close> is
    \<^verbatim>\<open>json.loads\<close>;
  \<^item> \<open>b64encode b\<close> is \<^verbatim>\<open>base64.b64encode(b).decode('utf-8')\<close>, \<open>b64decode\<close> is
    \<^verbatim>\<open>base64.b64decode\<close> on a \<open>str\<close>;
  \<^item> \<open>utf8_encode s\<close> is \<^verbatim>\<open>s.encode('utf-8')\<close>, \<open>utf8_decode b\<close> is \<^verbatim>\<open>b.decode('utf-8')\<close>;
  \<^item> \<open>py_int s\<close> is \<^verbatim>\<open>int(s)\<close>;
  \<^item> \<open>random_read i n\<close> is what the \<open>i\<close>-th call of \<^verbatim>\<open>Random.new().read(n)\<close> in the process
    returns.
\<close>

record libs =
  pbkdf2_hmac :: "bytes \<Rightarrow> bytes \<Rightarrow> bytes"
  hmac_hexdigest :: "bytes \<Rightarrow> bytes \<Rightarrow> string"
  aes_cbc_encrypt :: "bytes \<Rightarrow> bytes \<Rightarrow> bytes \<Rightarrow> exc + bytes"
  aes_cbc_decrypt :: "bytes \<Rightarrow> bytes \<Rightarrow> bytes \<Rightarrow> exc + bytes"
  json_dumps :: "nat option \<Rightarrow> json \<Rightarrow> string"
  json_loads :: "string \<Rightarrow> exc + json"
  b64encode :: "bytes \<Rightarrow> string"
  b64decode :: "string \<Rightarrow> exc + bytes"
  utf8_encode :: "string \<Rightarrow> bytes"
  utf8_decode :: "bytes \<Rightarrow> exc + string"
  py_int :: "string \<Rightarrow> exc + int"
  random_read :: "nat \<Rightarrow> nat \<Rightarrow> bytes"

subsection \<open>Builtins of the language\<close>

text \<open>\<^verbatim>\<open>str(n)\<close> and \<^verbatim>\<open>f"{n}"\<close> on an \<open>int\<close>: its decimal digits, with a sign.\<close>

definition digit_char :: "nat \<Rightarrow> char" where
  "digit_char d = char_of (48 + d)"

function digits :: "nat \<Rightarrow> string" where
  "digits n = (if n < 10 then [digit_char n] else digits (n div 10) @ [digit_char (n mod 10)])"
  by pat_completeness auto
termination
  by (relation "measure (\<lambda>n. n)") auto

declare digits.simps [simp del]

definition py_str :: "int \<Rightarrow> string" where
  "py_str i = (if i < 0 then CHR ''-'' # digits (nat (- i)) else digits (nat i))"

text \<open>\<^verbatim>\<open>d[k]\<close> on a value of a JSON document, with a \<open>str\<close> key.\<close>

fun getitem :: "json \<Rightarrow> string \<Rightarrow> exc + json" where
  "getitem (JDict kvs) k = (case map_of kvs k of None \<Rightarrow> Inl (KeyError k) | Some v \<Rightarrow> Inr v)"
| "getitem v k = Inl (TypeError ''indices must be integers or the object is not subscriptable'')"

text \<open>\<^verbatim>\<open>d.items()\<close>: only a \<open>dict\<close> has the method.\<close>

fun items :: "json \<Rightarrow> exc + (string \<times> json) list" where
  "items (JDict kvs) = Inr kvs"
| "items v = Inl (AttributeError ''object has no attribute items'')"

text \<open>\<^verbatim>\<open>"".join(xs)\<close> on a list of values of a document: every item must be a \<open>str\<close>.\<close>

fun join :: "json list \<Rightarrow> exc + string" where
  "join [] = Inr []"
| "join (JStr s # xs) = (case join xs of Inl e \<Rightarrow> Inl e | Inr r \<Rightarrow> Inr (s @ r))"
| "join (v # xs) = Inl (TypeError ''sequence item: expected str instance'')"

text \<open>
  \<^verbatim>\<open>sorted(d.items())\<close> on a \<open>dict\<close> with \<open>str\<close> keys: the pairs are compared by their keys
  (no two are equal in a \<open>dict\<close>), and \<open>str\<close> compares code point by code point.
\<close>

definition sorted_items :: "(string \<times> 'a) list \<Rightarrow> (string \<times> 'a) list" where
  "sorted_items kvs = sort_key fst kvs"

text \<open>
  \<^verbatim>\<open>hmac.compare_digest(a, b)\<close> with \<open>a\<close> a \<open>str\<close>: \<open>b\<close> must be a \<open>str\<close> too and both
  ASCII only, or it raises \<open>TypeError\<close>.
\<close>

definition ascii :: "string \<Rightarrow> bool" where
  "ascii s = (\<forall>c \<in> set s. (of_char c :: nat) < 128)"

fun compare_digest :: "string \<Rightarrow> json \<Rightarrow> exc + bool" where
  "compare_digest a (JStr b) =
     (if ascii a \<and> ascii b then Inr (a = b)
      else Inl (TypeError ''comparing strings with non-ASCII characters is not supported''))"
| "compare_digest a v = Inl (TypeError ''unsupported operand types(s) or combination of types'')"

text \<open>A \<open>dict\<close> as an association list: \<^verbatim>\<open>d[k] = v\<close>, \<^verbatim>\<open>a | b\<close> and a comprehension.\<close>

fun dict_set :: "'k \<Rightarrow> 'v \<Rightarrow> ('k \<times> 'v) list \<Rightarrow> ('k \<times> 'v) list" where
  "dict_set k v [] = [(k, v)]"
| "dict_set k v ((k', v') # d) = (if k = k' then (k, v) # d else (k', v') # dict_set k v d)"

definition dict_of :: "('k \<times> 'v) list \<Rightarrow> ('k \<times> 'v) list" where
  "dict_of kvs = foldl (\<lambda>d (k, v). dict_set k v d) [] kvs"

definition dict_union :: "('k \<times> 'v) list \<Rightarrow> ('k \<times> 'v) list \<Rightarrow> ('k \<times> 'v) list" where
  "dict_union a b = foldl (\<lambda>d (k, v). dict_set k v d) a b"

subsection \<open>Crypto.Util.Padding, PKCS#7 style\<close>

definition pad :: "bytes \<Rightarrow> nat \<Rightarrow> bytes" where
  "pad data_to_pad block_size =
     (let padding_len = block_size - length data_to_pad mod block_size
      in data_to_pad @ replicate padding_len (of_nat padding_len))"

definition unpad :: "bytes \<Rightarrow> nat \<Rightarrow> exc + bytes" where
  "unpad padded_data block_size =
     (let pdata_len = length padded_data in
      if pdata_len = 0 then Inl (ValueError ''Zero-length input cannot be unpadded'')
      else if pdata_len mod block_size \<noteq> 0 then Inl (ValueError ''Input data is not padded'')
      else
        let padding_len = unat (last padded_data) in
        if padding_len < 1 \<or> padding_len > min block_size pdata_len
        then Inl (ValueError ''Padding is incorrect.'')
        else if drop (pdata_len - padding_len) padded_data
                  \<noteq> replicate padding_len (of_nat padding_len)
        then Inl (ValueError ''PKCS#7 padding is incorrect.'')
        else Inr (take (pdata_len - padding_len) padded_data))"

subsection \<open>Process-wide state\<close>

text \<open>
  \<open>next_id\<close> is the class attribute \<open>Container.next_id\<close>; \<open>draws\<close> counts the calls of
  \<^verbatim>\<open>Random.new().read\<close> made so far; \<open>files\<close> maps a path to the text of the file there.
\<close>

record world =
  next_id :: int
  draws :: nat
  files :: "string \<Rightarrow> string option"

definition random_new_read :: "libs \<Rightarrow> nat \<Rightarrow> world \<Rightarrow> bytes \<times> world" where
  "random_new_read L n w = (random_read L (draws w) n, w\<lparr>draws := Suc (draws w)\<rparr>)"

subsection \<open>class SymmetricKey\<close>

definition KEY_SIZE :: nat where "KEY_SIZE = 32"
definition SALT_SIZE :: nat where "SALT_SIZE = 32"
definition BLOCK_SIZE :: nat where "BLOCK_SIZE = 16"

record symmetric_key =
  salt :: bytes
  iv :: bytes
  aeskey :: "bytes option"
  prev_password :: "string option"

text \<open>
  \<^verbatim>\<open>self.salt = salt if salt else Random.new().read(self.SALT_SIZE)\<close>: an argument that is
  \<open>None\<close> or empty is replaced by random bytes.
\<close>

definition bytes_or_random :: "libs \<Rightarrow> bytes option \<Rightarrow> nat \<Rightarrow> world \<Rightarrow> bytes \<times> world" where
  "bytes_or_random L arg n w =
     (case arg of
        None \<Rightarrow> random_new_read L n w
      | Some b \<Rightarrow> if b = [] then random_new_read L n w else (b, w))"

definition SymmetricKey_init ::
  "libs \<Rightarrow> bytes option \<Rightarrow> bytes option \<Rightarrow> world \<Rightarrow> symmetric_key \<times> world" where
  "SymmetricKey_init L salt_arg iv_arg w =
     (let (s, w1) = bytes_or_random L salt_arg SALT_SIZE w;
          (i, w2) = bytes_or_random L iv_arg BLOCK_SIZE w1
      in (\<lparr>salt = s, iv = i, aeskey = None, prev_password = None\<rparr>, w2))"

text \<open>The derived key and the key object with its cache updated.\<close>

definition generate_aes_key :: "libs \<Rightarrow> symmetric_key \<Rightarrow> string \<Rightarrow> bytes \<times> symmetric_key" where
  "generate_aes_key L k password =
     (let derived = pbkdf2_hmac L (utf8_encode L password) (salt k) in
      case aeskey k of
        None \<Rightarrow> (derived, k\<lparr>aeskey := Some derived, prev_password := Some password\<rparr>)
      | Some a \<Rightarrow>
          if prev_password k = Some password then (a, k)
          else (derived, k\<lparr>aeskey := Some derived, prev_password := Some password\<rparr>))"

text \<open>The dictionary literals of the source, by the strings they hold.\<close>

definition key_json :: "string \<Rightarrow> string \<Rightarrow> json" where
  "key_json s i = JDict [(''salt'', JStr s), (''iv'', JStr i)]"

definition record_json :: "json \<Rightarrow> string \<Rightarrow> json" where
  "record_json n d = JDict [(''name'', n), (''data'', JStr d)]"

definition entry_json :: "string \<Rightarrow> string \<Rightarrow> json \<Rightarrow> json" where
  "entry_json ct m k = JDict [(''ciphertext'', JStr ct), (''mac'', JStr m), (''key'', k)]"

definition document_json :: "(string \<times> json) list \<Rightarrow> json \<Rightarrow> string \<Rightarrow> json" where
  "document_json entries k m = JDict [(''containers'', JDict entries), (''key'', k), (''mac'', JStr m)]"

definition get_key_json :: "libs \<Rightarrow> symmetric_key \<Rightarrow> json" where
  "get_key_json L k = key_json (b64encode L (salt k)) (b64encode L (iv k))"

subsection \<open>class Container\<close>

text \<open>
  \<open>c_id\<close>, \<open>c_name\<close>, \<open>c_key\<close>, \<open>c_data\<close> are the attributes \<open>id\<close>, \<open>name\<close>, \<open>key\<close>, \<open>data\<close>.
  \<open>from_data\<close> stores in \<open>name\<close> whatever value the decrypted record holds, so the attribute
  is a \<open>json\<close>; a name set through the vault is a \<open>JStr\<close>.
\<close>

record container =
  c_id :: int
  c_name :: json
  c_key :: symmetric_key
  c_data :: bytes

definition Container_init :: "libs \<Rightarrow> int option \<Rightarrow> world \<Rightarrow> container \<times> world" where
  "Container_init L id_arg w =
     (let i = (case id_arg of Some i \<Rightarrow> i | None \<Rightarrow> next_id w);
          w1 = w\<lparr>next_id := max (next_id w) (i + 1)\<rparr>;
          (k, w2) = SymmetricKey_init L None None w1
      in (\<lparr>c_id = i, c_name = JStr [], c_key = k, c_data = []\<rparr>, w2))"

definition get_id :: "container \<Rightarrow> int" where
  "get_id c = c_id c"

definition get_name :: "container \<Rightarrow> json" where
  "get_name c = c_name c"

definition get_data :: "libs \<Rightarrow> container \<Rightarrow> exc + string" where
  "get_data L c = utf8_decode L (c_data c)"

definition set_name :: "json \<Rightarrow> container \<Rightarrow> container" where
  "set_name n c = c\<lparr>c_name := n\<rparr>"

text \<open>\<^verbatim>\<open>self.data = data.encode('utf-8')\<close>: a value that is not a \<open>str\<close> has no \<open>encode\<close>.\<close>

fun set_data :: "libs \<Rightarrow> json \<Rightarrow> container \<Rightarrow> exc + container" where
  "set_data L (JStr s) c = Inr (c\<lparr>c_data := utf8_encode L s\<rparr>)"
| "set_data L v c = Inl (AttributeError ''object has no attribute encode'')"

definition container_eq :: "container \<Rightarrow> container \<Rightarrow> bool" where
  "container_eq a b = (c_id a = c_id b \<and> c_name a = c_name b \<and> c_data a = c_data b)"

definition invalid_mac_msg :: "string \<Rightarrow> string" where
  "invalid_mac_msg i =
     ''Integrity Error: Invalid container MAC for container '' @ i
       @ [CHR ''.'', CHR 0x0A] @ ''The container may have been tampered with.''"

text \<open>
  The part of \<open>from_data\<close> after the integrity check: decrypt, unpad, parse, fill the
  container.
\<close>

definition decrypt_into ::
  "libs \<Rightarrow> container \<Rightarrow> symmetric_key \<Rightarrow> bytes \<Rightarrow> bytes \<Rightarrow> bytes \<Rightarrow> error + container" where
  "decrypt_into L c loaded_key aes_key iv_arg ciphertext =
     (case aes_cbc_decrypt L aes_key iv_arg ciphertext of
        Inl e \<Rightarrow> Inl (Raised e)
      | Inr padded \<Rightarrow>
     (case unpad padded BLOCK_SIZE of
        Inl e \<Rightarrow> Inl (Raised e)
      | Inr plaintext \<Rightarrow>
     (case utf8_decode L plaintext of
        Inl e \<Rightarrow> Inl (Raised e)
      | Inr text \<Rightarrow>
     (case json_loads L text of
        Inl e \<Rightarrow> Inl (Raised e)
      | Inr jsonPlaintext \<Rightarrow>
     (case getitem jsonPlaintext ''name'' of
        Inl e \<Rightarrow> Inl (Raised e)
      | Inr n \<Rightarrow>
     (case getitem jsonPlaintext ''data'' of
        Inl e \<Rightarrow> Inl (Raised e)
      | Inr d \<Rightarrow>
     (case set_data L d (set_name n c) of
        Inl e \<Rightarrow> Inl (Raised e)
      | Inr c' \<Rightarrow> Inr (c'\<lparr>c_key := loaded_key\<rparr>))))))))"

definition from_data ::
  "libs \<Rightarrow> string \<Rightarrow> string \<Rightarrow> bytes \<Rightarrow> json \<Rightarrow> bytes \<Rightarrow> bytes \<Rightarrow> world
     \<Rightarrow> (error + container) \<times> world" where
  "from_data L password i ciphertext mac salt_arg iv_arg w =
     (if length salt_arg \<noteq> SALT_SIZE \<or> length iv_arg \<noteq> BLOCK_SIZE
      then (Inl (Raised (ValueError ''Invalid data'')), w)
      else
        case py_int L i of
          Inl e \<Rightarrow> (Inl (Raised e), w)
        | Inr n \<Rightarrow>
            let (c, w1) = Container_init L (Some n) w;
                (loaded_key, w2) = SymmetricKey_init L (Some salt_arg) (Some iv_arg) w1;
                (aes_key, loaded_key') = generate_aes_key L loaded_key password;
                computed_mac = hmac_hexdigest L aes_key (utf8_encode L i @ ciphertext)
            in case compare_digest computed_mac mac of
                 Inl e \<Rightarrow> (Inl (Raised e), w2)
               | Inr ok \<Rightarrow>
                   if \<not> ok then (Inl (LoadContainerError (invalid_mac_msg i)), w2)
                   else (decrypt_into L c loaded_key' aes_key iv_arg ciphertext, w2))"

text \<open>\<open>Container.encrypt\<close>: the dictionary it returns and the container with its key cached.\<close>

definition encrypt :: "libs \<Rightarrow> container \<Rightarrow> string \<Rightarrow> (error + json) \<times> container" where
  "encrypt L c password =
     (case utf8_decode L (c_data c) of
        Inl e \<Rightarrow> (Inl (Raised e), c)
      | Inr d \<Rightarrow>
          let plaintext =
                pad (utf8_encode L (json_dumps L None (record_json (c_name c) d))) BLOCK_SIZE;
              (aes_key, k') = generate_aes_key L (c_key c) password;
              c' = c\<lparr>c_key := k'\<rparr>
          in case aes_cbc_encrypt L aes_key (iv k') plaintext of
               Inl e \<Rightarrow> (Inl (Raised e), c')
             | Inr ciphertext \<Rightarrow>
                 let mac_message = utf8_encode L (py_str (c_id c)) @ ciphertext;
                     computed_mac = hmac_hexdigest L aes_key mac_message
                 in (Inr (entry_json (b64encode L ciphertext) computed_mac (get_key_json L k')),
                     c'))"

subsection \<open>class Vault\<close>

text \<open>Of the cloud handle only the attribute that \<open>set_master_password\<close> assigns is kept.\<close>

record gdrive =
  gd_password :: "string option"

record vault =
  v_key :: symmetric_key
  v_containers :: "(int \<times> container) list"
  v_master_password :: string
  v_cloud :: "gdrive option"
  v_hidden_containers :: "(int \<times> container) list"

definition add_container ::
  "libs \<Rightarrow> vault \<Rightarrow> string \<Rightarrow> string \<Rightarrow> world \<Rightarrow> (container \<times> vault) \<times> world" where
  "add_container L v n d w =
     (let (c, w1) = Container_init L None w;
          n' = (if n = [] then ''Container '' @ py_str (get_id c) else n);
          c' = (set_name (JStr n') c)\<lparr>c_data := utf8_encode L d\<rparr>
      in ((c', v\<lparr>v_containers := dict_set (get_id c') c' (v_containers v)\<rparr>), w1))"

definition remove_container :: "vault \<Rightarrow> int \<Rightarrow> error + vault" where
  "remove_container v i =
     (case map_of (v_containers v) i of
        None \<Rightarrow> Inl (Raised (KeyError (''Could not delete: Container with ID '' @ py_str i
                                         @ '' not found'')))
      | Some c \<Rightarrow> Inr (v\<lparr>v_containers := filter (\<lambda>(k, c). k \<noteq> i) (v_containers v)\<rparr>))"

definition get_container :: "vault \<Rightarrow> int \<Rightarrow> error + container" where
  "get_container v i =
     (case map_of (v_containers v) i of
        None \<Rightarrow> Inl (Raised (KeyError (''Container with ID '' @ py_str i @ '' not found'')))
      | Some c \<Rightarrow> Inr c)"

definition get_containers :: "vault \<Rightarrow> (int \<times> container) list" where
  "get_containers v = v_containers v"

text \<open>
  The comprehension of \<open>Vault.encrypt\<close> over \<open>all_containers.items()\<close>: each container is
  encrypted in turn and keeps its cached key; the first exception ends the loop.
\<close>

fun encrypt_items ::
  "libs \<Rightarrow> string \<Rightarrow> (int \<times> container) list
     \<Rightarrow> (error + (string \<times> json) list) \<times> (int \<times> container) list" where
  "encrypt_items L password [] = (Inr [], [])"
| "encrypt_items L password ((k, c) # cs) =
     (case encrypt L c password of
        (Inl e, c') \<Rightarrow> (Inl e, (k, c') # cs)
      | (Inr entry, c') \<Rightarrow>
          (case encrypt_items L password cs of
             (Inl e, cs') \<Rightarrow> (Inl e, (k, c') # cs')
           | (Inr entries, cs') \<Rightarrow> (Inr ((py_str k, entry) # entries), (k, c') # cs')))"

text \<open>\<^verbatim>\<open>[c["mac"] for c_id, c in sorted(d.items())]\<close>.\<close>

fun macs_of :: "(string \<times> json) list \<Rightarrow> exc + json list" where
  "macs_of [] = Inr []"
| "macs_of ((k, c) # kcs) =
     (case getitem c ''mac'' of
        Inl e \<Rightarrow> Inl e
      | Inr m \<Rightarrow> (case macs_of kcs of Inl e \<Rightarrow> Inl e | Inr ms \<Rightarrow> Inr (m # ms)))"

text \<open>
  The vault tag: \<^verbatim>\<open>hmac.new(key.generate_aes_key(pw), "".join(macs).encode('utf-8'),
  hashlib.sha256).hexdigest()\<close> over the entries of a \<open>containers\<close> dictionary.
\<close>

definition vault_mac ::
  "libs \<Rightarrow> symmetric_key \<Rightarrow> string \<Rightarrow> (string \<times> json) list \<Rightarrow> (exc + string) \<times> symmetric_key" where
  "vault_mac L k password entries =
     (case macs_of (sorted_items entries) of
        Inl e \<Rightarrow> (Inl e, k)
      | Inr container_macs \<Rightarrow>
          let (aes_key, k') = generate_aes_key L k password
          in case join container_macs of
               Inl e \<Rightarrow> (Inl e, k')
             | Inr joined \<Rightarrow> (Inr (hmac_hexdigest L aes_key (utf8_encode L joined)), k'))"

text \<open>
  \<open>Vault.encrypt\<close>: the document, and the vault whose keys have cached what they derived.
  The containers of \<open>all_containers\<close> are the objects of the two dictionaries, so what
  \<open>encrypt\<close> caches in one of them is seen through the vault.
\<close>

definition store_back ::
  "(int \<times> container) list \<Rightarrow> (int \<times> container) list \<Rightarrow> (int \<times> container) list" where
  "store_back all' d = map (\<lambda>(k, c). (k, case map_of all' k of None \<Rightarrow> c | Some c' \<Rightarrow> c')) d"

definition Vault_encrypt :: "libs \<Rightarrow> vault \<Rightarrow> (error + json) \<times> vault" where
  "Vault_encrypt L v =
     (let all_containers = dict_union (v_containers v) (v_hidden_containers v);
          (r, all') = encrypt_items L (v_master_password v) all_containers;
          v1 = v\<lparr>v_containers :=
                    map (\<lambda>(k, c). (k, if map_of (v_hidden_containers v) k = None
                                      then (case map_of all' k of None \<Rightarrow> c | Some c' \<Rightarrow> c')
                                      else c)) (v_containers v),
                 v_hidden_containers := store_back all' (v_hidden_containers v)\<rparr>
      in case r of
           Inl e \<Rightarrow> (Inl e, v1)
         | Inr entries \<Rightarrow>
             let enc_containers = dict_of entries
             in case vault_mac L (v_key v1) (v_master_password v1) enc_containers of
                  (Inl e, k') \<Rightarrow> (Inl (Raised e), v1\<lparr>v_key := k'\<rparr>)
                | (Inr mac, k') \<Rightarrow>
                    (Inr (document_json enc_containers (get_key_json L k') mac),
                     v1\<lparr>v_key := k'\<rparr>))"

text \<open>
  The arguments that \<open>fetch_container\<close> and \<open>load_from_file\<close> read from an entry \<open>c\<close> of the
  document, in the order Python evaluates them, and the call of \<open>from_data\<close>.
\<close>

fun b64decode_value :: "libs \<Rightarrow> json \<Rightarrow> exc + bytes" where
  "b64decode_value L (JStr s) = b64decode L s"
| "b64decode_value L v = Inl (TypeError ''argument should be a bytes-like object or ASCII string'')"

definition key_field :: "libs \<Rightarrow> json \<Rightarrow> string \<Rightarrow> exc + bytes" where
  "key_field L c f =
     (case getitem c ''key'' of
        Inl e \<Rightarrow> Inl e
      | Inr k \<Rightarrow> (case getitem k f of Inl e \<Rightarrow> Inl e | Inr x \<Rightarrow> b64decode_value L x))"

definition from_entry ::
  "libs \<Rightarrow> string \<Rightarrow> string \<Rightarrow> json \<Rightarrow> world \<Rightarrow> (error + container) \<times> world" where
  "from_entry L password i c w =
     (case getitem c ''ciphertext'' of
        Inl e \<Rightarrow> (Inl (Raised e), w)
      | Inr ct64 \<Rightarrow>
     (case b64decode_value L ct64 of
        Inl e \<Rightarrow> (Inl (Raised e), w)
      | Inr ciphertext \<Rightarrow>
     (case getitem c ''mac'' of
        Inl e \<Rightarrow> (Inl (Raised e), w)
      | Inr mac \<Rightarrow>
     (case key_field L c ''salt'' of
        Inl e \<Rightarrow> (Inl (Raised e), w)
      | Inr s \<Rightarrow>
     (case key_field L c ''iv'' of
        Inl e \<Rightarrow> (Inl (Raised e), w)
      | Inr i' \<Rightarrow> from_data L password i ciphertext mac s i' w)))))"

definition invalid_json_msg :: string where
  "invalid_json_msg = ''Could not load vault: Invalid JSON (file may be corrupted/empty)''"

text \<open>
  \<^verbatim>\<open>with open(path, "r") as f: data = json.load(f)\<close> under \<^verbatim>\<open>except json.JSONDecodeError\<close>:
  a missing file and any other exception of the parser are not caught.
\<close>

definition read_document :: "libs \<Rightarrow> string \<Rightarrow> world \<Rightarrow> error + json" where
  "read_document L path w =
     (case files w path of
        None \<Rightarrow> Inl (Raised (FileNotFoundError path))
      | Some text \<Rightarrow>
          (case json_loads L text of
             Inl (JSONDecodeError m) \<Rightarrow> Inl (LoadVaultError invalid_json_msg)
           | Inl e \<Rightarrow> Inl (Raised e)
           | Inr d \<Rightarrow> Inr d))"

definition fetch_error_msg :: "string \<Rightarrow> string" where
  "fetch_error_msg i = ''There was an error fetching the container with ID '' @ i"

definition fetch_container ::
  "libs \<Rightarrow> string \<Rightarrow> string \<Rightarrow> string \<Rightarrow> world \<Rightarrow> (error + container) \<times> world" where
  "fetch_container L i password path w =
     (case read_document L path w of
        Inl e \<Rightarrow> (Inl e, w)
      | Inr d \<Rightarrow>
          let r = (case getitem d ''containers'' of
                     Inl e \<Rightarrow> (Inl (Raised e), w)
                   | Inr cs \<Rightarrow>
                       (case getitem cs i of
                          Inl e \<Rightarrow> (Inl (Raised e), w)
                        | Inr c \<Rightarrow> from_entry L password i c w))
          in case r of
               (Inl e, w') \<Rightarrow> (Inl (LoadVaultError (fetch_error_msg i)), w')
             | (Inr c, w') \<Rightarrow> (Inr c, w'))"

text \<open>The list comprehension of \<open>load_from_file\<close>: one \<open>from_data\<close> per entry, in order.\<close>

fun load_entries ::
  "libs \<Rightarrow> string \<Rightarrow> (string \<times> json) list \<Rightarrow> world \<Rightarrow> (error + container list) \<times> world" where
  "load_entries L password [] w = (Inr [], w)"
| "load_entries L password ((i, c) # ics) w =
     (case from_entry L password i c w of
        (Inl e, w1) \<Rightarrow> (Inl e, w1)
      | (Inr x, w1) \<Rightarrow>
          (case load_entries L password ics w1 of
             (Inl e, w2) \<Rightarrow> (Inl e, w2)
           | (Inr xs, w2) \<Rightarrow> (Inr (x # xs), w2)))"

definition invalid_salt_msg :: string where
  "invalid_salt_msg = ''Could not load vault: Invalid salt or iv''"

definition invalid_vault_mac_msg :: string where
  "invalid_vault_mac_msg =
     ''Integrity Error: Invalid vault MAC.'' @ [CHR 0x0A] @ ''The vault may have been tampered with.''"

definition load_failed_msg :: string where
  "load_failed_msg =
     ''Could not load vault: Password may be incorrect or the file may have been tampered with.''"

text \<open>The body of the second \<open>try\<close> of \<open>load_from_file\<close>.\<close>

definition load_body :: "libs \<Rightarrow> vault \<Rightarrow> json \<Rightarrow> world \<Rightarrow> (error + vault) \<times> world" where
  "load_body L v d w =
     (case getitem d ''containers'' of
        Inl e \<Rightarrow> (Inl (Raised e), w)
      | Inr cs \<Rightarrow>
     (case items cs of
        Inl e \<Rightarrow> (Inl (Raised e), w)
      | Inr entries \<Rightarrow>
     (case load_entries L (v_master_password v) entries w of
        (Inl e, w1) \<Rightarrow> (Inl e, w1)
      | (Inr containers, w1) \<Rightarrow>
     (case getitem d ''mac'' of
        Inl e \<Rightarrow> (Inl (Raised e), w1)
      | Inr mac \<Rightarrow>
     (case key_field L d ''salt'' of
        Inl e \<Rightarrow> (Inl (Raised e), w1)
      | Inr s \<Rightarrow>
     (case key_field L d ''iv'' of
        Inl e \<Rightarrow> (Inl (Raised e), w1)
      | Inr i \<Rightarrow>
          if length s \<noteq> SALT_SIZE \<or> length i \<noteq> BLOCK_SIZE
          then (Inl (LoadVaultError invalid_salt_msg), w1)
          else
            let (k, w2) = SymmetricKey_init L (Some s) (Some i) w1
            in case vault_mac L k (v_master_password v) entries of
                 (Inl e, k') \<Rightarrow> (Inl (Raised e), w2)
               | (Inr computed_mac, k') \<Rightarrow>
                   (case compare_digest computed_mac mac of
                      Inl e \<Rightarrow> (Inl (Raised e), w2)
                    | Inr ok \<Rightarrow>
                        if \<not> ok then (Inl (LoadVaultError invalid_vault_mac_msg), w2)
                        else
                          let containers_map = dict_of (map (\<lambda>c. (get_id c, c)) containers)
                          in (Inr (v\<lparr>v_hidden_containers :=
                                        filter (\<lambda>(i, c). i < 0) containers_map,
                                      v_containers := filter (\<lambda>(i, c). i \<ge> 0) containers_map,
                                      v_key := k'\<rparr>), w2))))))))"

definition load_from_file :: "libs \<Rightarrow> vault \<Rightarrow> string \<Rightarrow> world \<Rightarrow> (error + vault) \<times> world" where
  "load_from_file L v path w =
     (case read_document L path w of
        Inl e \<Rightarrow> (Inl e, w)
      | Inr d \<Rightarrow>
          (case load_body L v d w of
             (Inl (LoadVaultError m), w') \<Rightarrow> (Inl (LoadVaultError m), w')
           | (Inl e, w') \<Rightarrow> (Inl (LoadVaultError load_failed_msg), w')
           | (Inr v', w') \<Rightarrow> (Inr v', w')))"

definition save_to_file :: "libs \<Rightarrow> vault \<Rightarrow> string \<Rightarrow> world \<Rightarrow> (error + unit) \<times> vault \<times> world" where
  "save_to_file L v path w =
     (case Vault_encrypt L v of
        (Inl e, v') \<Rightarrow> (Inl e, v', w)
      | (Inr d, v') \<Rightarrow>
          (Inr (), v', w\<lparr>files := (files w)(path \<mapsto> json_dumps L (Some 4) d)\<rparr>))"

text \<open>\<open>Vault.__init__\<close>: a new vault, loaded from \<open>path\<close> when one is given.\<close>

definition Vault_init :: "libs \<Rightarrow> string \<Rightarrow> string option \<Rightarrow> world \<Rightarrow> (error + vault) \<times> world" where
  "Vault_init L master_password path w =
     (let (k, w1) = SymmetricKey_init L None None w;
          (c1, w2) = Container_init L (Some (- 1)) w1;
          (c2, w3) = Container_init L (Some (- 2)) w2;
          v = \<lparr>v_key = k, v_containers = [], v_master_password = master_password,
               v_cloud = None,
               v_hidden_containers = [(- 1, set_name (JStr ''Credential'') c1),
                                      (- 2, set_name (JStr ''Token'') c2)]\<rparr>
      in case path of
           None \<Rightarrow> (Inr v, w3)
         | Some p \<Rightarrow> load_from_file L v p w3)"




subsection \<open>What the model uses of the libraries\<close>

text \<open>
  The facts about the libraries that the proofs below rest on, each a hypothesis of the
  theorems that need it:
  \<^item> encoding a \<open>str\<close> and decoding the result gives the \<open>str\<close> back, and bytes that decode
    are the encoding of what they decode to (the decoder is strict);
  \<^item> \<open>json.loads\<close> gives back the dictionaries that \<open>Container.encrypt\<close> and
    \<open>Vault.encrypt\<close> pass to \<open>json.dumps\<close>;
  \<^item> AES-CBC with a 32-byte key and a 16-byte IV encrypts data of whole blocks, and
    decrypting the result gives the data back;
  \<^item> PBKDF2 returns \<open>KEY_SIZE\<close> bytes; a hex digest of SHA-256 is 64 ASCII characters;
  \<^item> \<open>b64decode\<close> inverts \<open>b64encode\<close>; \<open>int\<close> inverts \<open>str\<close>; \<open>read(n)\<close> returns \<open>n\<close> bytes.
\<close>

definition utf8_ok :: "libs \<Rightarrow> bool" where
  "utf8_ok L =
     ((\<forall>s. utf8_decode L (utf8_encode L s) = Inr s)
      \<and> (\<forall>b s. utf8_decode L b = Inr s \<longrightarrow> utf8_encode L s = b))"

definition entry_row :: "string \<times> string \<times> string \<times> string \<times> string \<Rightarrow> string \<times> json" where
  "entry_row r = (case r of (i, ct, m, s, v) \<Rightarrow> (i, entry_json ct m (key_json s v)))"

definition json_ok :: "libs \<Rightarrow> bool" where
  "json_ok L =
     ((\<forall>n d. json_loads L (json_dumps L None (record_json (JStr n) d))
               = Inr (record_json (JStr n) d))
      \<and> (\<forall>ind rows s v m. distinct (map fst rows) \<longrightarrow>
             json_loads L (json_dumps L ind (document_json (map entry_row rows) (key_json s v) m))
               = Inr (document_json (map entry_row rows) (key_json s v) m)))"

definition aes_ok :: "libs \<Rightarrow> bool" where
  "aes_ok L =
     (\<forall>k i p. length k = KEY_SIZE \<and> length i = BLOCK_SIZE \<and> length p mod BLOCK_SIZE = 0 \<longrightarrow>
        (\<exists>c. aes_cbc_encrypt L k i p = Inr c \<and> aes_cbc_decrypt L k i c = Inr p))"

definition kdf_ok :: "libs \<Rightarrow> bool" where
  "kdf_ok L = (\<forall>p s. length (pbkdf2_hmac L p s) = KEY_SIZE)"

definition hmac_ok :: "libs \<Rightarrow> bool" where
  "hmac_ok L = (\<forall>k m. ascii (hmac_hexdigest L k m) \<and> length (hmac_hexdigest L k m) = 64)"

definition b64_ok :: "libs \<Rightarrow> bool" where
  "b64_ok L = (\<forall>b. b64decode L (b64encode L b) = Inr b)"

definition int_ok :: "libs \<Rightarrow> bool" where
  "int_ok L = (\<forall>n. py_int L (py_str n) = Inr n)"

definition random_ok :: "libs \<Rightarrow> bool" where
  "random_ok L = (\<forall>i n. length (random_read L i n) = n)"

definition libs_ok :: "libs \<Rightarrow> bool" where
  "libs_ok L =
     (utf8_ok L \<and> json_ok L \<and> aes_ok L \<and> kdf_ok L \<and> hmac_ok L \<and> b64_ok L \<and> int_ok L
      \<and> random_ok L)"

subsection \<open>A small instance of the libraries\<close>

text \<open>
  The theorems hold for every instance of the libraries that has the properties above.
  \<open>toy_libs\<close> is one such instance, small enough to run the model on concrete inputs: the
  UTF-8 codec on the code points below 256, real CBC chaining and the real argument checks
  of AES over a block function that only adds the key, hex where the source uses base64,
  decimal literals for \<open>int()\<close>, a length-prefixed text for the two shapes of dictionary the
  source serialises, and checksums in place of PBKDF2 and HMAC-SHA256.
\<close>

unbundle bit_operations_syntax

definition lead2 :: "nat \<Rightarrow> byte" where
  "lead2 n = of_nat (192 + n div 64)"

definition cont2 :: "nat \<Rightarrow> byte" where
  "cont2 n = of_nat (128 + n mod 64)"

definition cp2 :: "byte \<Rightarrow> byte \<Rightarrow> nat" where
  "cp2 b b2 = (unat b - 192) * 64 + (unat b2 - 128)"

definition is_lead2 :: "byte \<Rightarrow> bool" where
  "is_lead2 b = (unat b = 194 \<or> unat b = 195)"

definition is_cont :: "byte \<Rightarrow> bool" where
  "is_cont b = (128 \<le> unat b \<and> unat b < 192)"

definition utf8_char :: "char \<Rightarrow> bytes" where
  "utf8_char c =
     (if (of_char c :: nat) < 128 then [of_nat (of_char c)]
      else [lead2 (of_char c), cont2 (of_char c)])"

definition toy_utf8_encode :: "string \<Rightarrow> bytes" where
  "toy_utf8_encode s = concat (map utf8_char s)"

definition invalid_utf8 :: exc where
  "invalid_utf8 = UnicodeDecodeError ''utf-8 codec cannot decode bytes''"

fun toy_utf8_decode :: "bytes \<Rightarrow> exc + string" where
  "toy_utf8_decode [] = Inr []"
| "toy_utf8_decode [b] =
     (if unat b < 128 then Inr [char_of (unat b)] else Inl invalid_utf8)"
| "toy_utf8_decode (b # b2 # bs) =
     (if unat b < 128 then
        (case toy_utf8_decode (b2 # bs) of
           Inl e \<Rightarrow> Inl e
         | Inr s \<Rightarrow> Inr (char_of (unat b) # s))
      else if is_lead2 b \<and> is_cont b2 then
        (case toy_utf8_decode bs of
           Inl e \<Rightarrow> Inl e
         | Inr s \<Rightarrow> Inr (char_of (cp2 b b2) # s))
      else Inl invalid_utf8)"

text \<open>Hex digits, for the digest and in place of base64.\<close>

definition hexdigit :: "nat \<Rightarrow> char" where
  "hexdigit n = (if n < 10 then char_of (48 + n) else char_of (87 + n))"

definition hexval :: "char \<Rightarrow> nat option" where
  "hexval c =
     (let n = (of_char c :: nat) in
      if 48 \<le> n \<and> n < 58 then Some (n - 48)
      else if 97 \<le> n \<and> n < 103 then Some (n - 87)
      else None)"

definition hex_byte :: "byte \<Rightarrow> string" where
  "hex_byte b = [hexdigit (unat b div 16), hexdigit (unat b mod 16)]"

definition toy_b64encode :: "bytes \<Rightarrow> string" where
  "toy_b64encode b = concat (map hex_byte b)"

fun toy_b64decode :: "string \<Rightarrow> exc + bytes" where
  "toy_b64decode [] = Inr []"
| "toy_b64decode [c] = Inl (BinasciiError ''Incorrect padding'')"
| "toy_b64decode (c # d # cs) =
     (case (hexval c, hexval d) of
        (Some h, Some l) \<Rightarrow>
          (case toy_b64decode cs of Inl e \<Rightarrow> Inl e | Inr bs \<Rightarrow> Inr (of_nat (16 * h + l) # bs))
      | _ \<Rightarrow> Inl (BinasciiError ''Non-hexadecimal digit found''))"

text \<open>Checksums in place of PBKDF2 and HMAC-SHA256.\<close>

definition toy_pbkdf2 :: "bytes \<Rightarrow> bytes \<Rightarrow> bytes" where
  "toy_pbkdf2 password s = map (\<lambda>b. b + sum_list password) (take 32 (s @ replicate 32 0))"

definition checksum :: "bytes \<Rightarrow> bytes \<Rightarrow> byte" where
  "checksum k m = foldl (\<lambda>a b. 3 * a + b) (sum_list k) m"

definition toy_hmac_hexdigest :: "bytes \<Rightarrow> bytes \<Rightarrow> string" where
  "toy_hmac_hexdigest k m = concat (map (\<lambda>j. hex_byte (checksum k m + of_nat j)) [0..<32])"

text \<open>AES in CBC mode over the block function that adds the first 16 bytes of the key.\<close>

definition xor_bytes :: "bytes \<Rightarrow> bytes \<Rightarrow> bytes" where
  "xor_bytes a b = map (\<lambda>(x, y). x XOR y) (zip a b)"

function cbc_encrypt :: "bytes \<Rightarrow> bytes \<Rightarrow> bytes \<Rightarrow> bytes" where
  "cbc_encrypt k prev p =
     (if length p < 16 then []
      else let c = xor_bytes (xor_bytes (take 16 p) prev) k
           in c @ cbc_encrypt k c (drop 16 p))"
  by pat_completeness auto
termination
  by (relation "measure (\<lambda>(k, prev, p). length p)") auto

declare cbc_encrypt.simps [simp del]

function cbc_decrypt :: "bytes \<Rightarrow> bytes \<Rightarrow> bytes \<Rightarrow> bytes" where
  "cbc_decrypt k prev c =
     (if length c < 16 then []
      else xor_bytes (xor_bytes (take 16 c) k) prev @ cbc_decrypt k (take 16 c) (drop 16 c))"
  by pat_completeness auto
termination
  by (relation "measure (\<lambda>(k, prev, c). length c)") auto

declare cbc_decrypt.simps [simp del]

definition aes_arguments :: "bytes \<Rightarrow> bytes \<Rightarrow> bytes \<Rightarrow> exc option" where
  "aes_arguments k i d =
     (if length k \<noteq> 16 \<and> length k \<noteq> 24 \<and> length k \<noteq> 32
      then Some (ValueError ''Incorrect AES key length'')
      else if length i \<noteq> 16
      then Some (ValueError ''Incorrect IV length (it must be 16 bytes long)'')
      else if length d mod 16 \<noteq> 0
      then Some (ValueError ''Data must be padded to 16 byte boundary in CBC mode'')
      else None)"

definition toy_aes_cbc_encrypt :: "bytes \<Rightarrow> bytes \<Rightarrow> bytes \<Rightarrow> exc + bytes" where
  "toy_aes_cbc_encrypt k i p =
     (case aes_arguments k i p of
        Some e \<Rightarrow> Inl e
      | None \<Rightarrow> Inr (cbc_encrypt (take 16 k) i p))"

definition toy_aes_cbc_decrypt :: "bytes \<Rightarrow> bytes \<Rightarrow> bytes \<Rightarrow> exc + bytes" where
  "toy_aes_cbc_decrypt k i c =
     (case aes_arguments k i c of
        Some e \<Rightarrow> Inl e
      | None \<Rightarrow> Inr (cbc_decrypt (take 16 k) i c))"

text \<open>\<open>int()\<close> on a decimal literal with an optional minus sign.\<close>

definition is_digit :: "char \<Rightarrow> bool" where
  "is_digit c = (48 \<le> (of_char c :: nat) \<and> (of_char c :: nat) < 58)"

definition decimal :: "string \<Rightarrow> nat" where
  "decimal s = foldl (\<lambda>a c. 10 * a + (of_char c - 48)) 0 s"

definition invalid_literal :: exc where
  "invalid_literal = ValueError ''invalid literal for int() with base 10''"

definition toy_int :: "string \<Rightarrow> exc + int" where
  "toy_int s =
     (case s of
        [] \<Rightarrow> Inl invalid_literal
      | c # cs \<Rightarrow>
          if c = CHR ''-'' then
            (if cs \<noteq> [] \<and> list_all is_digit cs then Inr (- int (decimal cs))
             else Inl invalid_literal)
          else if list_all is_digit s then Inr (int (decimal s))
          else Inl invalid_literal)"

definition toy_random_read :: "nat \<Rightarrow> nat \<Rightarrow> bytes" where
  "toy_random_read i n = map (\<lambda>j. of_nat (7 * i + j + 1)) [0..<n]"

text \<open>
  The text of a dictionary: a list of strings, each written as its length in \<open>+\<close> signs,
  a colon and the string. The first string tells the record of a container from a vault
  document.
\<close>

definition enc_str :: "string \<Rightarrow> string" where
  "enc_str s = replicate (length s) CHR ''+'' @ CHR '':'' # s"

definition dec_str :: "string \<Rightarrow> (string \<times> string) option" where
  "dec_str t =
     (let n = length (takeWhile (\<lambda>c. c = CHR ''+'') t) in
      case drop n t of
        [] \<Rightarrow> None
      | c # r \<Rightarrow> if c = CHR '':'' \<and> n \<le> length r then Some (take n r, drop n r) else None)"

fun dec_strs :: "nat \<Rightarrow> string \<Rightarrow> string list option" where
  "dec_strs 0 t = (if t = [] then Some [] else None)"
| "dec_strs (Suc k) t =
     (if t = [] then Some []
      else case dec_str t of
             None \<Rightarrow> None
           | Some (s, r) \<Rightarrow> map_option (Cons s) (dec_strs k r))"

definition str_at :: "json \<Rightarrow> string \<Rightarrow> string option" where
  "str_at v k = (case getitem v k of Inr (JStr s) \<Rightarrow> Some s | _ \<Rightarrow> None)"

definition flat_entry :: "string \<times> json \<Rightarrow> string list option" where
  "flat_entry e =
     (case e of (i, c) \<Rightarrow>
        (case (str_at c ''ciphertext'', str_at c ''mac'', getitem c ''key'') of
           (Some ct, Some m, Inr k) \<Rightarrow>
             (case (str_at k ''salt'', str_at k ''iv'') of
                (Some s, Some v) \<Rightarrow> Some [i, ct, m, s, v]
              | _ \<Rightarrow> None)
         | _ \<Rightarrow> None))"

fun flat_entries :: "(string \<times> json) list \<Rightarrow> string list option" where
  "flat_entries [] = Some []"
| "flat_entries (e # es) =
     (case (flat_entry e, flat_entries es) of
        (Some x, Some xs) \<Rightarrow> Some (x @ xs)
      | _ \<Rightarrow> None)"

definition flat_json :: "json \<Rightarrow> string list option" where
  "flat_json d =
     (case (getitem d ''containers'', getitem d ''key'', str_at d ''mac'') of
        (Inr (JDict es), Inr k, Some m) \<Rightarrow>
          (case (flat_entries es, str_at k ''salt'', str_at k ''iv'') of
             (Some xs, Some s, Some v) \<Rightarrow> Some (''V'' # s # v # m # xs)
           | _ \<Rightarrow> None)
      | _ \<Rightarrow>
          (case (str_at d ''name'', str_at d ''data'') of
             (Some n, Some x) \<Rightarrow> Some [''R'', n, x]
           | _ \<Rightarrow> None))"

definition toy_json_dumps :: "nat option \<Rightarrow> json \<Rightarrow> string" where
  "toy_json_dumps indent d =
     (case flat_json d of
        None \<Rightarrow> ''null''
      | Some xs \<Rightarrow> concat (map enc_str xs))"

fun unflat_entries :: "string list \<Rightarrow> (string \<times> json) list option" where
  "unflat_entries [] = Some []"
| "unflat_entries (i # ct # m # s # v # xs) =
     map_option (Cons (i, entry_json ct m (key_json s v))) (unflat_entries xs)"
| "unflat_entries xs = None"

definition invalid_json :: exc where
  "invalid_json = JSONDecodeError ''Expecting value''"

definition toy_json_loads :: "string \<Rightarrow> exc + json" where
  "toy_json_loads t =
     (case dec_strs (length t) t of
        Some [tag, n, x] \<Rightarrow>
          if tag = ''R'' then Inr (record_json (JStr n) x) else Inl invalid_json
      | Some (tag # s # v # m # xs) \<Rightarrow>
          if tag = ''V'' then
            (case unflat_entries xs of
               None \<Rightarrow> Inl invalid_json
             | Some es \<Rightarrow> Inr (document_json es (key_json s v) m))
          else Inl invalid_json
      | _ \<Rightarrow> Inl invalid_json)"

text \<open>The strings of one entry of a vault document, in the order of the text.\<close>

definition row_strs :: "string \<times> string \<times> string \<times> string \<times> string \<Rightarrow> string list" where
  "row_strs r = (case r of (i, ct, m, s, v) \<Rightarrow> [i, ct, m, s, v])"

definition toy_libs :: libs where
  "toy_libs =
     \<lparr>pbkdf2_hmac = toy_pbkdf2,
      hmac_hexdigest = toy_hmac_hexdigest,
      aes_cbc_encrypt = toy_aes_cbc_encrypt,
      aes_cbc_decrypt = toy_aes_cbc_decrypt,
      json_dumps = toy_json_dumps,
      json_loads = toy_json_loads,
      b64encode = toy_b64encode,
      b64decode = toy_b64decode,
      utf8_encode = toy_utf8_encode,
      utf8_decode = toy_utf8_decode,
      py_int = toy_int,
      random_read = toy_random_read\<rparr>"

subsection \<open>A session of constructions, for the claims about ids\<close>

text \<open>
  A session is a sequence of calls that construct or remove containers: \<open>add_container\<close>,
  \<open>remove_container\<close>, and \<open>Container(id)\<close> itself (as \<open>from_data\<close> and \<open>Vault.__init__\<close> call
  it, with an explicit id, or with none). \<open>adds_fresh\<close> runs the session on the model and
  keeps the ids of all containers constructed so far; it holds when every \<open>add_container\<close>
  of the session returned an id that no container constructed before it had.
\<close>

datatype session_op =
    Add string string
  | Remove int
  | Construct "int option"

fun adds_fresh :: "libs \<Rightarrow> session_op list \<Rightarrow> vault \<Rightarrow> world \<Rightarrow> int list \<Rightarrow> bool" where
  "adds_fresh L [] v w constructed = True"
| "adds_fresh L (Add n d # ops) v w constructed =
     (let ((c, v'), w') = add_container L v n d w
      in c_id c \<notin> set constructed \<and> adds_fresh L ops v' w' (c_id c # constructed))"
| "adds_fresh L (Remove i # ops) v w constructed =
     (case remove_container v i of
        Inl e \<Rightarrow> adds_fresh L ops v w constructed
      | Inr v' \<Rightarrow> adds_fresh L ops v' w constructed)"
| "adds_fresh L (Construct id_arg # ops) v w constructed =
     (let (c, w') = Container_init L id_arg w
      in adds_fresh L ops v w' (c_id c # constructed))"

subsection \<open>What the constructors and setters establish\<close>

text \<open>The key that \<open>generate_aes_key\<close> derives when nothing is cached.\<close>

definition derive :: "libs \<Rightarrow> string \<Rightarrow> bytes \<Rightarrow> bytes" where
  "derive L password s = pbkdf2_hmac L (utf8_encode L password) s"

text \<open>
  The cache of a \<open>SymmetricKey\<close> is written only by \<open>generate_aes_key\<close>, and no method assigns
  \<open>salt\<close> afterwards: a cached key is the key derived from the cached password.
\<close>

definition key_ok :: "libs \<Rightarrow> symmetric_key \<Rightarrow> bool" where
  "key_ok L k =
     (case aeskey k of
        None \<Rightarrow> True
      | Some a \<Rightarrow> (case prev_password k of None \<Rightarrow> True | Some p \<Rightarrow> a = derive L p (salt k)))"

text \<open>
  A container as the constructor, \<open>set_name\<close> and \<open>set_data\<close> leave it: a salt and an IV of
  the sizes \<open>SymmetricKey()\<close> draws (or \<open>from_data\<close> has checked), a name that is a \<open>str\<close>, and
  data that is the UTF-8 encoding of a \<open>str\<close>.
\<close>

definition is_str :: "json \<Rightarrow> bool" where
  "is_str v = (case v of JStr s \<Rightarrow> True | _ \<Rightarrow> False)"

definition decodes :: "libs \<Rightarrow> bytes \<Rightarrow> bool" where
  "decodes L b = (case utf8_decode L b of Inl e \<Rightarrow> False | Inr s \<Rightarrow> True)"

definition container_ok :: "libs \<Rightarrow> container \<Rightarrow> bool" where
  "container_ok L c =
     (key_ok L (c_key c) \<and> length (salt (c_key c)) = SALT_SIZE
      \<and> length (iv (c_key c)) = BLOCK_SIZE \<and> is_str (c_name c) \<and> decodes L (c_data c))"

text \<open>The bytes that \<open>Container.encrypt\<close> encrypts when the data decodes to \<open>d\<close>.\<close>

definition plaintext_of :: "libs \<Rightarrow> container \<Rightarrow> string \<Rightarrow> bytes" where
  "plaintext_of L c d = pad (utf8_encode L (json_dumps L None (record_json (c_name c) d))) BLOCK_SIZE"

subsection \<open>The vault: its invariant and the tag of its document\<close>

text \<open>
  A vault as \<open>Vault.__init__\<close>, \<open>add_container\<close>, \<open>load_from_file\<close> and \<open>regenerate_keys\<close> leave
  it: every container is stored under its own id, the user's containers have the ids the
  allocator gives (not negative), the reserved ones negative ids, and each container and
  the vault's own key are well formed.
\<close>

definition vault_ok :: "libs \<Rightarrow> vault \<Rightarrow> bool" where
  "vault_ok L v =
     (key_ok L (v_key v) \<and> length (salt (v_key v)) = SALT_SIZE
      \<and> length (iv (v_key v)) = BLOCK_SIZE
      \<and> distinct (map fst (v_containers v @ v_hidden_containers v))
      \<and> list_all (\<lambda>(k, c). c_id c = k \<and> 0 \<le> k \<and> container_ok L c) (v_containers v)
      \<and> list_all (\<lambda>(k, c). c_id c = k \<and> k < 0 \<and> container_ok L c) (v_hidden_containers v))"

text \<open>The dictionary that \<open>Container.encrypt\<close> returns, when it returns one.\<close>

definition entry_of :: "libs \<Rightarrow> string \<Rightarrow> container \<Rightarrow> json" where
  "entry_of L password c = (case fst (encrypt L c password) of Inl e \<Rightarrow> JNull | Inr e \<Rightarrow> e)"

definition entries_of :: "libs \<Rightarrow> string \<Rightarrow> (int \<times> container) list \<Rightarrow> (string \<times> json) list" where
  "entries_of L password cs = map (\<lambda>(k, c). (py_str k, entry_of L password c)) cs"

text \<open>
  The vault tag in the words of the specification: HMAC-SHA256, keyed with the vault key,
  over the concatenation of the per-container mac hex strings, in the order of the
  container ids sorted as strings. \<open>id_macs\<close> reads the ids and the stored mac strings off
  the \<open>containers\<close> dictionary of a document.
\<close>

definition spec_vault_mac :: "libs \<Rightarrow> bytes \<Rightarrow> (string \<times> string) list \<Rightarrow> string" where
  "spec_vault_mac L vault_key macs =
     hmac_hexdigest L vault_key (utf8_encode L (concat (map snd (sort_key fst macs))))"

definition stored_mac :: "json \<Rightarrow> string" where
  "stored_mac e = (case getitem e ''mac'' of Inr (JStr m) \<Rightarrow> m | _ \<Rightarrow> [])"

definition id_macs :: "(string \<times> json) list \<Rightarrow> (string \<times> string) list" where
  "id_macs entries = map (\<lambda>(k, e). (k, stored_mac e)) entries"






text \<open>An entry whose \<open>mac\<close> is a \<open>str\<close> of the length of a SHA-256 hex digest.\<close>

definition has_mac :: "json \<Rightarrow> bool" where
  "has_mac e = (case getitem e ''mac'' of Inr (JStr m) \<Rightarrow> length m = 64 | _ \<Rightarrow> False)"

text \<open>The document that \<open>Vault.encrypt\<close> returns, when it returns one.\<close>

definition document_of :: "libs \<Rightarrow> vault \<Rightarrow> json" where
  "document_of L v = (case fst (Vault_encrypt L v) of Inl e \<Rightarrow> JNull | Inr d \<Rightarrow> d)"

text \<open>The key that \<open>SymmetricKey()\<close> makes when \<open>n\<close> reads of the random source came before.\<close>

definition fresh_key :: "libs \<Rightarrow> nat \<Rightarrow> symmetric_key" where
  "fresh_key L n =
     \<lparr>salt = random_read L n SALT_SIZE, iv = random_read L (Suc n) BLOCK_SIZE,
      aeskey = None, prev_password = None\<rparr>"
subsection \<open>Concrete inputs\<close>

text \<open>
  The inputs on which the theorems below are instantiated: the container of the test
  suite (id 5, \<open>Test Container\<close>, \<open>Test Data\<close>), with the key material that the first two
  reads of the small instance's random source give, and containers whose data is not
  UTF-8.
\<close>

definition world0 :: world where
  "world0 = \<lparr>next_id = 0, draws = 0, files = Map.empty\<rparr>"

definition key0 :: symmetric_key where
  "key0 = \<lparr>salt = toy_random_read 0 32, iv = toy_random_read 1 16,
            aeskey = None, prev_password = None\<rparr>"

definition test_container :: container where
  "test_container =
     \<lparr>c_id = 5, c_name = JStr ''Test Container'', c_key = key0,
      c_data = toy_utf8_encode ''Test Data''\<rparr>"

definition latin1_container :: container where
  "latin1_container =
     \<lparr>c_id = 5, c_name = JStr ''Test Container'', c_key = key0, c_data = [0xFF]\<rparr>"

definition truncated_container :: container where
  "truncated_container =
     \<lparr>c_id = 0, c_name = JStr ''Container 0'', c_key = key0, c_data = [0x61, 0xC3]\<rparr>"

text \<open>
  A vault document whose one entry, for container 5, carries the tag \<open>invalid\<close> (as in the
  test suite), the file that holds it, and a vault that is about to load it.
\<close>

definition tampered_document :: json where
  "tampered_document =
     document_json
       (map entry_row
          [(''5'', b64encode toy_libs [1, 2, 3], ''invalid'',
            b64encode toy_libs (salt key0), b64encode toy_libs (iv key0))])
       (key_json (b64encode toy_libs (salt key0)) (b64encode toy_libs (iv key0)))
       ''invalid''"

definition tampered_world :: world where
  "tampered_world =
     \<lparr>next_id = 0, draws = 0,
      files = [''vault.json'' \<mapsto> json_dumps toy_libs (Some 4) tampered_document]\<rparr>"

definition empty_vault :: vault where
  "empty_vault =
     \<lparr>v_key = key0, v_containers = [], v_master_password = ''password'', v_cloud = None,
      v_hidden_containers = []\<rparr>"

text \<open>
  A container named \<open>cat\<close>, what \<open>encrypt\<close> makes of it under the small instance, and its IV
  with the lowest bit of byte 7 flipped.
\<close>

definition cat_container :: container where
  "cat_container =
     \<lparr>c_id = 5, c_name = JStr ''cat'', c_key = key0, c_data = toy_utf8_encode ''Test Data''\<rparr>"

definition cat_ciphertext :: bytes where
  "cat_ciphertext =
     cbc_encrypt (take 16 (derive toy_libs ''password'' (salt key0))) (iv key0)
       (plaintext_of toy_libs cat_container ''Test Data'')"

definition cat_mac :: string where
  "cat_mac =
     hmac_hexdigest toy_libs (derive toy_libs ''password'' (salt key0))
       (utf8_encode toy_libs ''5'' @ cat_ciphertext)"

definition flipped_iv :: bytes where
  "flipped_iv = (iv key0)[7 := iv key0 ! 7 XOR 1]"


text \<open>
  Files for \<open>fetch_container\<close>: one that holds a dictionary with no \<open>containers\<close> key, and a
  vault document with the entry of the container \<open>cat\<close> under id 5 and, under id 7, the
  same entry with a salt of three bytes.
\<close>

definition record_world :: world where
  "record_world =
     \<lparr>next_id = 0, draws = 0,
      files = [''vault.json''
                 \<mapsto> json_dumps toy_libs None (record_json (JStr ''cat'') ''Test Data'')]\<rparr>"

definition cat_document :: json where
  "cat_document =
     document_json
       (map entry_row
          [(''5'', b64encode toy_libs cat_ciphertext, cat_mac,
            b64encode toy_libs (salt key0), b64encode toy_libs (iv key0)),
           (''7'', b64encode toy_libs cat_ciphertext, cat_mac,
            b64encode toy_libs [1, 2, 3], b64encode toy_libs (iv key0))])
       (key_json (b64encode toy_libs (salt key0)) (b64encode toy_libs (iv key0)))
       ''invalid''"

definition cat_world :: world where
  "cat_world =
     \<lparr>next_id = 0, draws = 0,
      files = [''vault.json'' \<mapsto> json_dumps toy_libs (Some 4) cat_document]\<rparr>"

text \<open>
  A container whose name and data hold the delimiters of the serialised record: the name
  is \<^verbatim>\<open>", "data": "x\<close> and the data is \<^verbatim>\<open>}{\<close> followed by a quote, a backslash, a NUL and
  the letter U+00E9.
\<close>

definition tricky_name :: string where
  "tricky_name =
     [CHR 0x22] @ '', '' @ [CHR 0x22] @ ''data'' @ [CHR 0x22] @ '': '' @ [CHR 0x22] @ ''x''"

definition tricky_data :: string where
  "tricky_data = ''}{'' @ [CHR 0x22, CHR 0x5C, CHR 0x00, CHR 0xE9]"

definition tricky_container :: container where
  "tricky_container =
     \<lparr>c_id = 3, c_name = JStr tricky_name, c_key = key0,
      c_data = toy_utf8_encode tricky_data\<rparr>"

text \<open>
  A vault as \<open>Vault('password')\<close> and one \<open>add_container\<close> leave it, with the test container
  under id 5 and the two reserved containers; the world after it was saved; and a
  document that holds the entry of the container \<open>cat\<close> and the vault tag \<open>invalid\<close>.
\<close>

definition credential_container :: container where
  "credential_container =
     \<lparr>c_id = - 1, c_name = JStr ''Credential'', c_key = fresh_key toy_libs 4, c_data = []\<rparr>"

definition token_container :: container where
  "token_container =
     \<lparr>c_id = - 2, c_name = JStr ''Token'', c_key = fresh_key toy_libs 6, c_data = []\<rparr>"

definition test_vault :: vault where
  "test_vault =
     \<lparr>v_key = fresh_key toy_libs 2, v_containers = [(5, test_container)],
      v_master_password = ''password'', v_cloud = None,
      v_hidden_containers = [(- 1, credential_container), (- 2, token_container)]\<rparr>"

definition saved_world :: world where
  "saved_world = snd (snd (save_to_file toy_libs test_vault ''vault.json'' world0))"

definition unsigned_document :: json where
  "unsigned_document =
     document_json
       (map entry_row
          [(''5'', b64encode toy_libs cat_ciphertext, cat_mac,
            b64encode toy_libs (salt key0), b64encode toy_libs (iv key0))])
       (key_json (b64encode toy_libs (salt key0)) (b64encode toy_libs (iv key0)))
       ''invalid''"

definition unsigned_world :: world where
  "unsigned_world =
     \<lparr>next_id = 0, draws = 0,
      files = [''vault.json'' \<mapsto> json_dumps toy_libs (Some 4) unsigned_document]\<rparr>"












section \<open>The small instance has the properties of the libraries\<close>

lemma unat_of_nat8: "n < 256 \<Longrightarrow> unat (of_nat n :: 8 word) = n"
  by (simp add: unat_of_nat)

lemma mod64: "128 \<le> (x::nat) \<Longrightarrow> x < 192 \<Longrightarrow> 128 + x mod 64 = x"
proof -
  assume a: "128 \<le> x" "x < 192"
  define k where "k = x - 128"
  have x: "x = 64 * 2 + k" and k: "k < 64" using a unfolding k_def by simp_all
  have "(64 * 2 + k) mod 64 = k" using k by (simp only: mod_mult_self4 mod_less)
  then have "x mod 64 = k" using x by simp
  then show ?thesis using x by simp
qed

lemma two_byte_facts:
  assumes "128 \<le> n" "n < 256"
  shows "is_lead2 (lead2 n)" "is_cont (cont2 n)" "cp2 (lead2 n) (cont2 n) = n"
    "\<not> unat (lead2 n) < 128"
proof -
  have a: "unat (lead2 n) = 192 + n div 64"
    unfolding lead2_def using assms by (intro unat_of_nat8) arith
  have b: "unat (cont2 n) = 128 + n mod 64"
    unfolding cont2_def by (intro unat_of_nat8) arith
  have c: "n div 64 = 2 \<or> n div 64 = 3" using assms by arith
  show "is_lead2 (lead2 n)" unfolding is_lead2_def a using c by arith
  show "is_cont (cont2 n)" unfolding is_cont_def b by arith
  show "cp2 (lead2 n) (cont2 n) = n" unfolding cp2_def a b by simp
  show "\<not> unat (lead2 n) < 128" unfolding a by arith
qed

lemma cp2_facts:
  assumes "is_lead2 b" "is_cont b2"
  shows "128 \<le> cp2 b b2" "cp2 b b2 < 256" "lead2 (cp2 b b2) = b" "cont2 (cp2 b b2) = b2"
proof -
  define x where "x = unat b"
  define y where "y = unat b2"
  have xy: "x = 194 \<or> x = 195" "128 \<le> y" "y < 192"
    using assms unfolding is_lead2_def is_cont_def x_def y_def by simp_all
  have n: "cp2 b b2 = (x - 192) * 64 + (y - 128)"
    unfolding cp2_def x_def y_def by simp
  have nn: "cp2 b b2 = y \<or> cp2 b b2 = y + 64" unfolding n using xy by arith
  show "128 \<le> cp2 b b2" using nn xy by arith
  show "cp2 b b2 < 256" using nn xy by arith
  have m: "128 + y mod 64 = y" using xy(2,3) by (rule mod64)
  have "192 + cp2 b b2 div 64 = x" unfolding n using xy by arith
  then show "lead2 (cp2 b b2) = b" unfolding lead2_def x_def by simp
  have "128 + cp2 b b2 mod 64 = y" using nn m by auto
  then show "cont2 (cp2 b b2) = b2" unfolding cont2_def y_def by simp
qed

lemma decode_char_append:
  "toy_utf8_decode (utf8_char c @ bs) =
     (case toy_utf8_decode bs of Inl e \<Rightarrow> Inl e | Inr s \<Rightarrow> Inr (c # s))"
proof -
  define n where "n = (of_char c :: nat)"
  have lt: "n < 256" unfolding n_def by (rule nat_of_char_less_256)
  have cn: "char_of n = c" unfolding n_def by simp
  show ?thesis
  proof (cases "n < 128")
    case True
    then have "unat (of_nat n :: 8 word) = n" by (simp add: unat_of_nat8)
    then have u: "char_of (unat (of_nat n :: 8 word)) = c" "unat (of_nat n :: 8 word) < 128"
      using cn True by simp_all
    have e: "utf8_char c = [of_nat n]"
      using True by (simp add: utf8_char_def n_def)
    show ?thesis
      unfolding e by (cases bs) (simp_all add: u split: sum.splits)
  next
    case False
    then have n: "128 \<le> n" by simp
    have e: "utf8_char c = [lead2 n, cont2 n]"
      using False by (simp add: utf8_char_def n_def)
    show ?thesis
      unfolding e using two_byte_facts [OF n lt] cn
      by (simp split: sum.splits)
  qed
qed

lemma toy_utf8_roundtrip: "toy_utf8_decode (toy_utf8_encode s) = Inr s"
  by (induction s) (simp_all add: toy_utf8_encode_def decode_char_append)

lemma utf8_char_one: "unat b < 128 \<Longrightarrow> utf8_char (char_of (unat b)) = [b]"
proof -
  assume a: "unat b < 128"
  have "(of_char (char_of (unat b)) :: nat) = unat b"
    using a by simp
  then show ?thesis
    using a by (simp add: utf8_char_def)
qed

lemma utf8_char_two:
  assumes "is_lead2 b" "is_cont b2"
  shows "utf8_char (char_of (cp2 b b2)) = [b, b2]"
proof -
  have oc: "(of_char (char_of (cp2 b b2)) :: nat) = cp2 b b2"
    using cp2_facts(2) [OF assms] by simp
  show ?thesis
    unfolding utf8_char_def oc using cp2_facts [OF assms] by simp
qed

lemma toy_utf8_decode_inj: "toy_utf8_decode b = Inr s \<Longrightarrow> toy_utf8_encode s = b"
proof (induction b arbitrary: s rule: toy_utf8_decode.induct)
  case 1
  then show ?case by (simp add: toy_utf8_encode_def)
next
  case (2 b)
  then have "unat b < 128" "s = [char_of (unat b)]"
    by (simp_all split: if_splits)
  then show ?case
    by (simp add: toy_utf8_encode_def utf8_char_one)
next
  case (3 b b2 bs)
  show ?case
  proof (cases "unat b < 128")
    case True
    then obtain s' where s': "toy_utf8_decode (b2 # bs) = Inr s'" "s = char_of (unat b) # s'"
      using 3(3) by (simp split: sum.splits)
    have "toy_utf8_encode s' = b2 # bs" using 3(1) True s' by simp
    then show ?thesis using True s' by (simp add: toy_utf8_encode_def utf8_char_one)
  next
    case False
    then have cond: "is_lead2 b" "is_cont b2"
      using 3(3) by (simp_all split: if_splits)
    then obtain s' where s': "toy_utf8_decode bs = Inr s'" "s = char_of (cp2 b b2) # s'"
      using 3(3) False by (simp split: sum.splits)
    have ih: "toy_utf8_encode s' = bs" using 3(2) False cond s' by simp
    show ?thesis
      unfolding s' using ih utf8_char_two [OF cond]
      by (simp add: toy_utf8_encode_def)
  qed
qed

lemma toy_utf8_ok: "utf8_ok toy_libs"
  by (simp add: utf8_ok_def toy_libs_def toy_utf8_roundtrip toy_utf8_decode_inj)

lemma of_char_hexdigit:
  "n < 16 \<Longrightarrow> (of_char (hexdigit n) :: nat) = (if n < 10 then 48 + n else 87 + n)"
  by (simp add: hexdigit_def)

lemma hexval_hexdigit: "n < 16 \<Longrightarrow> hexval (hexdigit n) = Some n"
  by (simp add: hexval_def of_char_hexdigit Let_def)

lemma unat_div16: "unat (b :: byte) div 16 < 16"
proof -
  have "unat b < 256" using unsigned_less [of b] by simp
  then show ?thesis by simp
qed

lemma decode_hex_byte:
  "toy_b64decode (hex_byte b @ cs) =
     (case toy_b64decode cs of Inl e \<Rightarrow> Inl e | Inr bs \<Rightarrow> Inr (b # bs))"
proof -
  have "(of_nat (16 * (unat b div 16) + unat b mod 16) :: byte) = b"
    by (simp only: mult_div_mod_eq) simp
  then show ?thesis
    by (simp add: hex_byte_def hexval_hexdigit unat_div16 split: sum.splits)
qed

lemma toy_b64_roundtrip: "toy_b64decode (toy_b64encode b) = Inr b"
  by (induction b) (simp_all add: toy_b64encode_def decode_hex_byte)

lemma toy_b64_ok: "b64_ok toy_libs"
  by (simp add: b64_ok_def toy_libs_def toy_b64_roundtrip)

lemma of_char_hexdigit_less: "n < 16 \<Longrightarrow> (of_char (hexdigit n) :: nat) < 128"
  by (simp add: of_char_hexdigit)

lemma ascii_hex_byte: "ascii (hex_byte b)"
  by (simp add: ascii_def hex_byte_def of_char_hexdigit_less unat_div16)

lemma ascii_append: "ascii (a @ b) = (ascii a \<and> ascii b)"
  by (auto simp add: ascii_def)

lemma ascii_concat_hex: "ascii (concat (map hex_byte bs))"
  by (induction bs) (simp_all add: ascii_append ascii_hex_byte, simp add: ascii_def)

lemma length_concat_hex: "length (concat (map hex_byte bs)) = 2 * length bs"
  by (induction bs) (simp_all add: hex_byte_def)

lemma toy_hmac_ok: "hmac_ok toy_libs"
proof -
  have a: "ascii (toy_hmac_hexdigest k m)" for k m
    unfolding toy_hmac_hexdigest_def
    using ascii_concat_hex [of "map (\<lambda>j. checksum k m + of_nat j) [0..<32]"]
    by (simp add: comp_def)
  have l: "length (toy_hmac_hexdigest k m) = 64" for k m
    unfolding toy_hmac_hexdigest_def
    using length_concat_hex [of "map (\<lambda>j. checksum k m + of_nat j) [0..<32]"]
    by (simp add: comp_def)
  show ?thesis
    by (simp add: hmac_ok_def toy_libs_def a l)
qed

lemma toy_kdf_ok: "kdf_ok toy_libs"
  by (auto simp add: kdf_ok_def toy_libs_def toy_pbkdf2_def KEY_SIZE_def)

lemma toy_random_ok: "random_ok toy_libs"
  by (simp add: random_ok_def toy_libs_def toy_random_read_def)

lemma length_xor_bytes: "length (xor_bytes a b) = min (length a) (length b)"
  by (simp add: xor_bytes_def)

lemma xor_bytes_cancel: "length a = length b \<Longrightarrow> xor_bytes (xor_bytes a b) b = a"
  by (induction a b rule: list_induct2) (simp_all add: xor_bytes_def xor.assoc)

lemma short_block: "length (p::bytes) < 16 \<Longrightarrow> length p mod 16 = 0 \<Longrightarrow> p = []"
  by simp

lemma cbc_encrypt_Nil: "cbc_encrypt k prev [] = []"
  by (simp add: cbc_encrypt.simps [of k prev "[]"])

lemma cbc_decrypt_Nil: "cbc_decrypt k prev [] = []"
  by (simp add: cbc_decrypt.simps [of k prev "[]"])

lemma cbc_encrypt_step:
  "\<not> length p < 16 \<Longrightarrow>
     cbc_encrypt k prev p =
       xor_bytes (xor_bytes (take 16 p) prev) k
         @ cbc_encrypt k (xor_bytes (xor_bytes (take 16 p) prev) k) (drop 16 p)"
  by (subst cbc_encrypt.simps) (simp add: Let_def)

lemma cbc_decrypt_step:
  "length c = 16 \<Longrightarrow>
     cbc_decrypt k prev (c @ rest) = xor_bytes (xor_bytes c k) prev @ cbc_decrypt k c rest"
  by (subst cbc_decrypt.simps) simp

lemma xor_undo:
  "length k = 16 \<Longrightarrow> length prev = 16 \<Longrightarrow> length t = 16 \<Longrightarrow>
     xor_bytes (xor_bytes (xor_bytes (xor_bytes t prev) k) k) prev = t"
  by (simp add: xor_bytes_cancel length_xor_bytes)

lemma cbc_roundtrip:
  "length k = 16 \<Longrightarrow> length prev = 16 \<Longrightarrow> length p mod 16 = 0 \<Longrightarrow>
     cbc_decrypt k prev (cbc_encrypt k prev p) = p
     \<and> length (cbc_encrypt k prev p) = length p"
proof (induction k prev p rule: cbc_encrypt.induct)
  case (1 k prev p)
  show ?case
  proof (cases "length p < 16")
    case True
    then have "p = []" using "1.prems"(3) by (rule short_block)
    then show ?thesis
      by (simp add: cbc_encrypt_Nil cbc_decrypt_Nil)
  next
    case False
    define c where "c = xor_bytes (xor_bytes (take 16 p) prev) k"
    define rest where "rest = cbc_encrypt k c (drop 16 p)"
    have lt: "length (take 16 p) = 16" using False by simp
    have lc: "length c = 16"
      unfolding c_def using lt "1.prems"(1,2) by (simp add: length_xor_bytes)
    have e: "cbc_encrypt k prev p = c @ rest"
      unfolding c_def rest_def using False by (rule cbc_encrypt_step)
    have "16 dvd length p"
      using "1.prems"(3) by (simp add: mod_eq_0_iff_dvd)
    then have "16 dvd (length p - 16)"
      by (simp add: dvd_diff_nat)
    then have m: "length (drop 16 p) mod 16 = 0"
      by (simp add: mod_eq_0_iff_dvd)
    have both: "cbc_decrypt k c (cbc_encrypt k c (drop 16 p)) = drop 16 p
        \<and> length (cbc_encrypt k c (drop 16 p)) = length (drop 16 p)"
      by (rule "1.IH" [OF False c_def "1.prems"(1) lc m])
    have ih: "cbc_decrypt k c rest = drop 16 p" "length rest = length (drop 16 p)"
      unfolding rest_def
      by (rule conjunct1 [OF both], rule conjunct2 [OF both])
    have undo: "xor_bytes (xor_bytes c k) prev = take 16 p"
      unfolding c_def using "1.prems"(1,2) lt by (rule xor_undo)
    have "cbc_decrypt k prev (c @ rest) = take 16 p @ drop 16 p"
      unfolding cbc_decrypt_step [OF lc] undo ih(1) by (rule refl)
    moreover have "length (c @ rest) = length p"
      using lc ih(2) False by simp
    ultimately show ?thesis
      unfolding e by simp
  qed
qed

lemma toy_aes_ok: "aes_ok toy_libs"
proof -
  have "\<exists>c. toy_aes_cbc_encrypt k i p = Inr c \<and> toy_aes_cbc_decrypt k i c = Inr p"
    if a: "length k = 32" "length i = 16" "length p mod 16 = 0" for k i p
  proof -
    have k: "length (take 16 k) = 16" using a by simp
    have r: "cbc_decrypt (take 16 k) i (cbc_encrypt (take 16 k) i p) = p"
        "length (cbc_encrypt (take 16 k) i p) = length p"
      using cbc_roundtrip [OF k a(2,3)] by simp_all
    have e: "toy_aes_cbc_encrypt k i p = Inr (cbc_encrypt (take 16 k) i p)"
      using a by (simp add: toy_aes_cbc_encrypt_def aes_arguments_def)
    have d: "toy_aes_cbc_decrypt k i (cbc_encrypt (take 16 k) i p) = Inr p"
      using a r by (simp add: toy_aes_cbc_decrypt_def aes_arguments_def)
    show ?thesis using e d by simp
  qed
  then show ?thesis
    by (simp add: aes_ok_def toy_libs_def KEY_SIZE_def BLOCK_SIZE_def)
qed

lemma of_char_digit_char: "d < 10 \<Longrightarrow> (of_char (digit_char d) :: nat) = 48 + d"
  by (simp add: digit_char_def)

lemma decimal_snoc: "decimal (s @ [c]) = 10 * decimal s + (of_char c - 48)"
  by (simp add: decimal_def)

lemma digits_facts:
  "list_all is_digit (digits n) \<and> decimal (digits n) = n \<and> digits n \<noteq> []"
proof (induction n rule: digits.induct)
  case (1 n)
  show ?case
  proof (cases "n < 10")
    case True
    then show ?thesis
      by (simp add: digits.simps [of n] is_digit_def decimal_def of_char_digit_char)
  next
    case False
    have d: "n mod 10 < 10" by simp
    have e: "digits n = digits (n div 10) @ [digit_char (n mod 10)]"
      using False by (simp add: digits.simps [of n])
    show ?thesis
      unfolding e using "1.IH" [OF False] d
      by (simp add: decimal_snoc is_digit_def of_char_digit_char)
  qed
qed

lemma toy_int_py_str: "toy_int (py_str n) = Inr n"
proof (cases "n < 0")
  case True
  show ?thesis
    using True digits_facts [of "nat (- n)"]
    by (simp add: py_str_def toy_int_def)
next
  case False
  obtain c cs where s: "digits (nat n) = c # cs"
    using digits_facts [of "nat n"] by (cases "digits (nat n)") auto
  have "is_digit c" using digits_facts [of "nat n"] s by simp
  then have "c \<noteq> CHR ''-''" by (auto simp add: is_digit_def)
  then show ?thesis
    using False digits_facts [of "nat n"] s
    by (simp add: py_str_def toy_int_def)
qed

lemma toy_int_ok: "int_ok toy_libs"
  by (simp add: int_ok_def toy_libs_def toy_int_py_str)

lemma dec_str_enc_str: "dec_str (enc_str s @ t) = Some (s, t)"
proof -
  have "takeWhile (\<lambda>c. c = CHR ''+'') (replicate (length s) CHR ''+'' @ CHR '':'' # s @ t)
          = replicate (length s) CHR ''+''"
    by (subst takeWhile_append2) auto
  then show ?thesis
    by (simp add: dec_str_def enc_str_def)
qed

lemma dec_strs_concat:
  "length xs \<le> k \<Longrightarrow> dec_strs k (concat (map enc_str xs)) = Some xs"
proof (induction xs arbitrary: k)
  case Nil
  then show ?case by (cases k) simp_all
next
  case (Cons x xs)
  then obtain k' where k: "k = Suc k'" "length xs \<le> k'" by (cases k) simp_all
  have ne: "enc_str x @ concat (map enc_str xs) \<noteq> []" by (simp add: enc_str_def)
  show ?case
    using ne Cons.IH [OF k(2)] by (simp add: k(1) dec_str_enc_str)
qed

lemma length_concat_enc: "length xs \<le> length (concat (map enc_str xs))"
  by (induction xs) (simp_all add: enc_str_def)

lemma dec_strs_text:
  "dec_strs (length (concat (map enc_str xs))) (concat (map enc_str xs)) = Some xs"
  by (rule dec_strs_concat) (rule length_concat_enc)

lemma flat_entry_row: "flat_entry (entry_row r) = Some (row_strs r)"
  by (cases r)
    (simp add: flat_entry_def entry_row_def row_strs_def entry_json_def key_json_def str_at_def)

lemma flat_entries_rows: "flat_entries (map entry_row rows) = Some (concat (map row_strs rows))"
  by (induction rows) (simp_all add: flat_entry_row)

lemma unflat_entries_rows: "unflat_entries (concat (map row_strs rows)) = Some (map entry_row rows)"
proof (induction rows)
  case Nil
  show ?case by simp
next
  case (Cons r rows)
  then show ?case
    by (cases r) (simp add: row_strs_def entry_row_def)
qed

lemma flat_json_record: "flat_json (record_json (JStr n) d) = Some [''R'', n, d]"
  by (simp add: flat_json_def record_json_def str_at_def)

lemma flat_json_document:
  "flat_json (document_json (map entry_row rows) (key_json s v) m)
     = Some (''V'' # s # v # m # concat (map row_strs rows))"
  by (simp add: flat_json_def document_json_def key_json_def str_at_def flat_entries_rows)

lemma toy_json_record:
  "toy_json_loads (toy_json_dumps ind (record_json (JStr n) d)) = Inr (record_json (JStr n) d)"
  unfolding toy_json_dumps_def toy_json_loads_def flat_json_record option.case
    dec_strs_text
  by simp

lemma toy_json_document:
  "toy_json_loads (toy_json_dumps ind (document_json (map entry_row rows) (key_json s v) m))
     = Inr (document_json (map entry_row rows) (key_json s v) m)"
  unfolding toy_json_dumps_def toy_json_loads_def flat_json_document option.case
    dec_strs_text
  by (simp add: unflat_entries_rows)

lemma toy_json_ok: "json_ok toy_libs"
  by (simp add: json_ok_def toy_libs_def toy_json_record toy_json_document)

lemma toy_libs_ok: "libs_ok toy_libs"
  by (simp add: libs_ok_def toy_utf8_ok toy_json_ok toy_aes_ok toy_kdf_ok toy_hmac_ok
      toy_b64_ok toy_int_ok toy_random_ok)

section \<open>Properties\<close>

subsection \<open>The id allocator\<close>

lemma random_new_read_next_id:
  "next_id (snd (random_new_read L n w)) = next_id w"
  by (simp add: random_new_read_def)

lemma bytes_or_random_next_id:
  "next_id (snd (bytes_or_random L a n w)) = next_id w"
  by (simp add: bytes_or_random_def random_new_read_next_id split: option.splits)

lemma SymmetricKey_init_next_id:
  "next_id (snd (SymmetricKey_init L a b w)) = next_id w"
  unfolding SymmetricKey_init_def Let_def
  by (simp add: split_beta bytes_or_random_next_id)

lemma Container_init_c_id:
  "c_id (fst (Container_init L id_arg w)) = (case id_arg of Some i \<Rightarrow> i | None \<Rightarrow> next_id w)"
  unfolding Container_init_def Let_def
  by (simp add: split_beta)

lemma Container_init_next_id:
  "next_id (snd (Container_init L id_arg w))
     = max (next_id w) ((case id_arg of Some i \<Rightarrow> i | None \<Rightarrow> next_id w) + 1)"
  unfolding Container_init_def Let_def
  by (simp add: split_beta SymmetricKey_init_next_id)

lemma add_container_c_id:
  "c_id (fst (fst (add_container L v n d w))) = next_id w"
  unfolding add_container_def Let_def
  by (simp add: split_beta set_name_def Container_init_c_id)

lemma add_container_next_id:
  "next_id (snd (add_container L v n d w)) = next_id w + 1"
  unfolding add_container_def Let_def
  by (simp add: split_beta Container_init_next_id)

text \<open>
  C8 (the allocator). In the source the constructor takes an explicit id, so two containers
  can have the same id: \<open>from_data\<close> constructs \<open>Container(int(id))\<close> for whatever id the
  document names, and every \<open>Vault()\<close> constructs \<open>Container(-1)\<close> and \<open>Container(-2)\<close>.
  Constructing a container with id 5 twice, in the same process, gives two containers
  with id 5.
\<close>

theorem explicit_id_is_reused:
  "\<forall>L w. (let (a, w1) = Container_init L (Some 5) w;
              (b, w2) = Container_init L (Some 5) w1
          in c_id a = c_id b \<and> c_id a = 5)"
  by (simp add: split_beta Container_init_c_id)

text \<open>
  C8, as the code has it. The watermark \<open>next_id\<close> never decreases; a construction with no
  explicit id takes the watermark as its id and leaves the watermark above it, and a
  construction with an explicit id leaves the watermark above that id. So if the ids of
  all containers constructed so far are below the watermark, then in every session of
  \<open>add_container\<close>, \<open>remove_container\<close> and constructor calls (with or without an explicit
  id) each \<open>add_container\<close> returns an id that no container constructed before it had.
\<close>

theorem add_container_id_is_fresh:
  assumes "\<forall>i \<in> set constructed. i < next_id w"
  shows "adds_fresh L ops v w constructed"
  using assms
proof (induction ops arbitrary: v w constructed)
  case Nil
  show ?case by simp
next
  case (Cons op ops)
  show ?case
  proof (cases op)
    case (Add n d)
    obtain c v' w' where r: "add_container L v n d w = ((c, v'), w')"
      by (metis prod.exhaust)
    have cid: "c_id c = next_id w"
      using add_container_c_id [of L v n d w] r by simp
    have nxt: "next_id w' = next_id w + 1"
      using add_container_next_id [of L v n d w] r by simp
    have fresh: "c_id c \<notin> set constructed"
      using Cons.prems cid by auto
    have inv: "\<forall>i \<in> set (c_id c # constructed). i < next_id w'"
      using Cons.prems cid nxt by auto
    show ?thesis
      using Add r fresh Cons.IH [OF inv] by simp
  next
    case (Remove i)
    show ?thesis
      using Remove Cons.IH [OF Cons.prems] by (simp split: sum.splits)
  next
    case (Construct id_arg)
    obtain c w' where r: "Container_init L id_arg w = (c, w')"
      by (metis prod.exhaust)
    have cid: "c_id c = (case id_arg of Some i \<Rightarrow> i | None \<Rightarrow> next_id w)"
      using Container_init_c_id [of L id_arg w] r by simp
    have nxt: "next_id w' = max (next_id w) (c_id c + 1)"
      using Container_init_next_id [of L id_arg w] r cid by simp
    have inv: "\<forall>i \<in> set (c_id c # constructed). i < next_id w'"
      using Cons.prems nxt by auto
    show ?thesis
      using Construct r Cons.IH [OF inv] by simp
  qed
qed

theorem add_container_id_is_fresh_witness:
  "\<forall>L v fs.
     list_all (\<lambda>i. i < (8::int)) [- 1, - 2, 7]
     \<and> adds_fresh L [Add ''a'' ''x'', Remove 8, Construct (Some 3), Add [] ''y'', Construct None,
                     Add ''c'' ''z'']
         v \<lparr>next_id = 8, draws = 0, files = fs\<rparr> [- 1, - 2, 7]"
proof (intro allI conjI)
  show "list_all (\<lambda>i. i < (8::int)) [- 1, - 2, 7]"
    by simp
next
  fix L v fs
  show "adds_fresh L [Add ''a'' ''x'', Remove 8, Construct (Some 3), Add [] ''y'', Construct None,
                     Add ''c'' ''z'']
         v \<lparr>next_id = 8, draws = 0, files = fs\<rparr> [- 1, - 2, 7]"
    by (rule add_container_id_is_fresh) simp
qed

section \<open>Container: encrypt and from_data\<close>

lemma generate_aes_key_fst:
  "key_ok L k \<Longrightarrow> fst (generate_aes_key L k password) = derive L password (salt k)"
  by (auto simp add: generate_aes_key_def key_ok_def derive_def Let_def split: option.splits)

lemma generate_aes_key_snd:
  "salt (snd (generate_aes_key L k password)) = salt k"
  "iv (snd (generate_aes_key L k password)) = iv k"
  by (auto simp add: generate_aes_key_def Let_def split: option.splits)

lemma generate_aes_key_ok:
  "key_ok L k \<Longrightarrow> key_ok L (snd (generate_aes_key L k password))"
  by (auto simp add: generate_aes_key_def key_ok_def derive_def Let_def split: option.splits)

lemma generate_aes_key_fresh:
  "generate_aes_key L \<lparr>salt = s, iv = i, aeskey = None, prev_password = None\<rparr> password
     = (derive L password s,
        \<lparr>salt = s, iv = i, aeskey = Some (derive L password s), prev_password = Some password\<rparr>)"
  by (simp add: generate_aes_key_def derive_def Let_def)

lemma SymmetricKey_init_given:
  "s \<noteq> [] \<Longrightarrow> i \<noteq> [] \<Longrightarrow>
     SymmetricKey_init L (Some s) (Some i) w
       = (\<lparr>salt = s, iv = i, aeskey = None, prev_password = None\<rparr>, w)"
  by (simp add: SymmetricKey_init_def bytes_or_random_def)

lemma pad_length_nat: "(m + 16 - m mod 16) mod 16 = (0::nat)"
proof -
  have "m mod 16 \<le> m" by (rule mod_less_eq_dividend)
  then have "m + 16 - m mod 16 = (m - m mod 16) + 16" by simp
  also have "\<dots> = 16 * (m div 16) + 16" by (simp only: minus_mod_eq_mult_div)
  also have "\<dots> = 16 * (m div 16 + 1)" by simp
  finally show ?thesis by (simp only: mod_mult_self1_is_0)
qed

lemma aes_okD:
  "aes_ok L \<Longrightarrow> length k = KEY_SIZE \<Longrightarrow> length i = BLOCK_SIZE \<Longrightarrow>
     length p mod BLOCK_SIZE = 0 \<Longrightarrow>
     \<exists>c. aes_cbc_encrypt L k i p = Inr c \<and> aes_cbc_decrypt L k i c = Inr p"
  by (simp add: aes_ok_def)

lemma pad_length: "length (pad d 16) mod 16 = 0"
  by (simp add: pad_def Let_def pad_length_nat)

lemma unpad_pad: "unpad (pad d 16) 16 = Inr d"
proof -
  define n where "n = 16 - length d mod 16"
  have n: "1 \<le> n" "n \<le> 16" unfolding n_def by simp_all
  have p: "pad d 16 = d @ replicate n (of_nat n)"
    by (simp add: pad_def n_def Let_def)
  have l: "length (d @ replicate n (of_nat n :: byte)) mod 16 = 0"
    using pad_length [of d] unfolding p .
  have u: "unat (of_nat n :: byte) = n"
    using n by (simp add: unat_of_nat8)
  have la: "last (d @ replicate n (of_nat n :: byte)) = of_nat n"
    using n by (cases n) simp_all
  have ne: "length (d @ replicate n (of_nat n :: byte)) \<noteq> 0" using n by simp
  show ?thesis
    unfolding p unpad_def Let_def la u using n l ne by simp
qed

text \<open>What \<open>Container.encrypt\<close> returns for a container with a well-formed key.\<close>

lemma encrypt_undecodable:
  "utf8_decode L (c_data c) = Inl e \<Longrightarrow> encrypt L c password = (Inl (Raised e), c)"
  by (simp add: encrypt_def)

lemma encrypt_decodable:
  assumes "aes_ok L" "kdf_ok L" "key_ok L (c_key c)" "length (iv (c_key c)) = BLOCK_SIZE"
    and d: "utf8_decode L (c_data c) = Inr d"
  shows "\<exists>ct. encrypt L c password
           = (Inr (entry_json (b64encode L ct)
                     (hmac_hexdigest L (derive L password (salt (c_key c)))
                        (utf8_encode L (py_str (c_id c)) @ ct))
                     (get_key_json L (c_key c))),
              c\<lparr>c_key := snd (generate_aes_key L (c_key c) password)\<rparr>)
         \<and> aes_cbc_decrypt L (derive L password (salt (c_key c))) (iv (c_key c)) ct
             = Inr (plaintext_of L c d)"
proof -
  define K where "K = derive L password (salt (c_key c))"
  define k' where "k' = snd (generate_aes_key L (c_key c) password)"
  have g: "generate_aes_key L (c_key c) password = (K, k')"
    using generate_aes_key_fst [OF assms(3), of password]
    by (simp add: K_def k'_def prod_eq_iff)
  have k': "iv k' = iv (c_key c)" "salt k' = salt (c_key c)"
    unfolding k'_def by (rule generate_aes_key_snd)+
  have lK: "length K = KEY_SIZE"
    using assms(2) by (simp add: kdf_ok_def K_def derive_def)
  have lp: "length (plaintext_of L c d) mod BLOCK_SIZE = 0"
    by (simp add: plaintext_of_def BLOCK_SIZE_def pad_length)
  obtain ct where ct: "aes_cbc_encrypt L K (iv (c_key c)) (plaintext_of L c d) = Inr ct"
      "aes_cbc_decrypt L K (iv (c_key c)) ct = Inr (plaintext_of L c d)"
    using aes_okD [OF assms(1) lK assms(4) lp] by blast
  have kj: "get_key_json L k' = get_key_json L (c_key c)"
    by (simp add: get_key_json_def k')
  have "encrypt L c password
          = (Inr (entry_json (b64encode L ct)
                    (hmac_hexdigest L K (utf8_encode L (py_str (c_id c)) @ ct))
                    (get_key_json L (c_key c))), c\<lparr>c_key := k'\<rparr>)"
    unfolding encrypt_def d sum.case g Let_def prod.case k' plaintext_of_def [symmetric] ct kj
    by (rule refl)
  then show ?thesis
    using ct(2) unfolding K_def k'_def by blast
qed

text \<open>What \<open>from_data\<close> does up to the comparison of the tags.\<close>

lemma from_data_malformed:
  "length s \<noteq> SALT_SIZE \<or> length v \<noteq> BLOCK_SIZE \<Longrightarrow>
     from_data L password i ct mac s v w = (Inl (Raised (ValueError ''Invalid data'')), w)"
  by (simp add: from_data_def)

lemma from_data_bad_id:
  "length s = SALT_SIZE \<Longrightarrow> length v = BLOCK_SIZE \<Longrightarrow> py_int L i = Inl e \<Longrightarrow>
     from_data L password i ct mac s v w = (Inl (Raised e), w)"
  by (simp add: from_data_def)

lemma from_data_checked:
  assumes "length s = SALT_SIZE" "length v = BLOCK_SIZE" "py_int L i = Inr n"
  shows "from_data L password i ct mac s v w =
     (case compare_digest (hmac_hexdigest L (derive L password s) (utf8_encode L i @ ct)) mac of
        Inl e \<Rightarrow> Inl (Raised e)
      | Inr ok \<Rightarrow>
          if \<not> ok then Inl (LoadContainerError (invalid_mac_msg i))
          else decrypt_into L (fst (Container_init L (Some n) w))
                 \<lparr>salt = s, iv = v, aeskey = Some (derive L password s),
                   prev_password = Some password\<rparr>
                 (derive L password s) v ct,
      snd (Container_init L (Some n) w))"
proof -
  have ne: "s \<noteq> []" "v \<noteq> []"
    using assms(1,2) by (auto simp add: SALT_SIZE_def BLOCK_SIZE_def)
  obtain c w1 where c: "Container_init L (Some n) w = (c, w1)"
    by (metis prod.exhaust)
  show ?thesis
    unfolding from_data_def
    using assms
    by (simp add: c SymmetricKey_init_given [OF ne] generate_aes_key_fresh
        split: sum.splits)
qed

lemma decrypt_into_record:
  assumes "utf8_ok L" "json_ok L"
    and ct: "aes_cbc_decrypt L K v ct = Inr (plaintext_of L c d)"
    and n: "c_name c = JStr n"
    and d: "utf8_decode L (c_data c) = Inr d"
  shows "decrypt_into L c0 lk K v ct = Inr (c0\<lparr>c_name := JStr n, c_data := c_data c, c_key := lk\<rparr>)"
proof -
  define jtext where "jtext = json_dumps L None (record_json (JStr n) d)"
  have p: "plaintext_of L c d = pad (utf8_encode L jtext) 16"
    by (simp add: plaintext_of_def jtext_def n BLOCK_SIZE_def)
  have u: "unpad (pad (utf8_encode L jtext) 16) BLOCK_SIZE = Inr (utf8_encode L jtext)"
    by (simp add: BLOCK_SIZE_def unpad_pad)
  have t: "utf8_decode L (utf8_encode L jtext) = Inr jtext"
    using assms(1) by (simp add: utf8_ok_def)
  have j: "json_loads L jtext = Inr (record_json (JStr n) d)"
    using assms(2) by (simp add: json_ok_def jtext_def)
  have g: "getitem (record_json (JStr n) d) ''name'' = Inr (JStr n)"
      "getitem (record_json (JStr n) d) ''data'' = Inr (JStr d)"
    by (simp_all add: record_json_def)
  have e: "utf8_encode L d = c_data c"
    using assms(1) d by (simp add: utf8_ok_def)
  show ?thesis
    unfolding decrypt_into_def ct p sum.case u t j g set_data.simps set_name_def e
    by simp
qed

lemma ascii_compare_digest: "ascii m \<Longrightarrow> compare_digest m (JStr m) = Inr True"
  by simp

lemma Container_init_fst:
  "\<exists>k. fst (Container_init L (Some n) w) = \<lparr>c_id = n, c_name = JStr [], c_key = k, c_data = []\<rparr>"
  unfolding Container_init_def Let_def
  by (simp add: split_beta)

lemma from_data_of_encrypt:
  assumes "libs_ok L" "container_ok L c"
  shows "\<exists>ct mac.
           fst (encrypt L c password)
             = Inr (entry_json (b64encode L ct) mac (get_key_json L (c_key c)))
           \<and> (\<exists>c' w'. from_data L password (py_str (c_id c)) ct (JStr mac)
                          (salt (c_key c)) (iv (c_key c)) w = (Inr c', w')
                        \<and> c_id c' = c_id c \<and> c_name c' = c_name c \<and> c_data c' = c_data c
                        \<and> salt (c_key c') = salt (c_key c) \<and> iv (c_key c') = iv (c_key c)
                        \<and> key_ok L (c_key c')
                        \<and> w' = snd (Container_init L (Some (c_id c)) w))"
proof -
  have L: "utf8_ok L" "json_ok L" "aes_ok L" "kdf_ok L" "hmac_ok L" "int_ok L"
    using assms(1) by (simp_all add: libs_ok_def)
  have c: "key_ok L (c_key c)" "length (salt (c_key c)) = SALT_SIZE"
      "length (iv (c_key c)) = BLOCK_SIZE" "is_str (c_name c)" "decodes L (c_data c)"
    using assms(2) by (simp_all add: container_ok_def)
  obtain d where d: "utf8_decode L (c_data c) = Inr d"
    using c(5) by (auto simp add: decodes_def split: sum.splits)
  obtain n where n: "c_name c = JStr n"
    using c(4) by (auto simp add: is_str_def split: json.splits)
  define K where "K = derive L password (salt (c_key c))"
  obtain ct where ct:
      "encrypt L c password
         = (Inr (entry_json (b64encode L ct)
                   (hmac_hexdigest L K (utf8_encode L (py_str (c_id c)) @ ct))
                   (get_key_json L (c_key c))),
            c\<lparr>c_key := snd (generate_aes_key L (c_key c) password)\<rparr>)"
      "aes_cbc_decrypt L K (iv (c_key c)) ct = Inr (plaintext_of L c d)"
    using encrypt_decodable [OF L(3,4) c(1,3) d, of password] unfolding K_def by blast
  define mac where "mac = hmac_hexdigest L K (utf8_encode L (py_str (c_id c)) @ ct)"
  define lk where "lk = \<lparr>salt = salt (c_key c), iv = iv (c_key c), aeskey = Some K,
                          prev_password = Some password\<rparr>"
  have i: "py_int L (py_str (c_id c)) = Inr (c_id c)"
    using L(6) by (simp add: int_ok_def)
  have a: "compare_digest mac (JStr mac) = Inr True"
    using L(5) by (simp add: hmac_ok_def mac_def)
  obtain k0 where k0: "fst (Container_init L (Some (c_id c)) w)
      = \<lparr>c_id = c_id c, c_name = JStr [], c_key = k0, c_data = []\<rparr>"
    using Container_init_fst by blast
  have dec: "decrypt_into L (fst (Container_init L (Some (c_id c)) w)) lk K (iv (c_key c)) ct
      = Inr (fst (Container_init L (Some (c_id c)) w)
              \<lparr>c_name := JStr n, c_data := c_data c, c_key := lk\<rparr>)"
    by (rule decrypt_into_record [OF L(1,2) ct(2) n d])
  have fd: "from_data L password (py_str (c_id c)) ct (JStr mac) (salt (c_key c)) (iv (c_key c)) w
      = (Inr (fst (Container_init L (Some (c_id c)) w)
                \<lparr>c_name := JStr n, c_data := c_data c, c_key := lk\<rparr>),
         snd (Container_init L (Some (c_id c)) w))"
    unfolding from_data_checked [OF c(2,3) i]
    unfolding K_def [symmetric] mac_def [symmetric] a lk_def [symmetric] dec
    by simp
  have ok: "key_ok L lk"
    by (simp add: key_ok_def lk_def K_def)
  show ?thesis
    apply (rule exI [of _ ct])
    apply (rule exI [of _ mac])
    using ct(1) fd k0 n ok
    by (simp add: mac_def lk_def)
qed

text \<open>
  C1 (round trip), as claimed for every container: it fails for a container whose data
  is not UTF-8. \<open>encrypt\<close> starts with \<^verbatim>\<open>self.data.decode('utf-8')\<close>, which raises
  \<open>UnicodeDecodeError\<close> on the byte \<open>0xFF\<close>, so there is no ciphertext to decrypt.
\<close>

theorem round_trip_fails_on_non_utf8_data:
  "fst (encrypt toy_libs latin1_container ''password'') = Inl (Raised invalid_utf8)"
  by (simp add: encrypt_def latin1_container_def toy_libs_def)

text \<open>
  C1, as the code has it. For every container whose data is the UTF-8 encoding of a
  text (all that \<open>set_data\<close> stores), whose name is a text and whose key material is as
  \<open>SymmetricKey()\<close> makes it, and every password: \<open>encrypt\<close> succeeds, and \<open>from_data\<close> on the
  password, \<open>str(id)\<close>, the ciphertext, the tag, the salt and the IV of its result succeeds
  and returns a container with the same id, name and data (\<open>__eq__\<close> holds).
\<close>

theorem encrypt_from_data_round_trip:
  assumes "libs_ok L" "container_ok L c"
  shows "\<exists>ct mac.
           fst (encrypt L c password)
             = Inr (entry_json (b64encode L ct) mac (get_key_json L (c_key c)))
           \<and> (\<exists>c' w'. from_data L password (py_str (c_id c)) ct (JStr mac)
                          (salt (c_key c)) (iv (c_key c)) w = (Inr c', w')
                        \<and> container_eq c' c)"
proof -
  obtain ct mac c' w' where r:
      "fst (encrypt L c password)
         = Inr (entry_json (b64encode L ct) mac (get_key_json L (c_key c)))"
      "from_data L password (py_str (c_id c)) ct (JStr mac)
         (salt (c_key c)) (iv (c_key c)) w = (Inr c', w')"
      "c_id c' = c_id c" "c_name c' = c_name c" "c_data c' = c_data c"
    using from_data_of_encrypt [OF assms, of password w] by blast
  have "container_eq c' c"
    using r(3,4,5) by (simp add: container_eq_def)
  then show ?thesis
    using r(1,2) by blast
qed

lemma key0_lengths: "length (salt key0) = 32" "length (iv key0) = 16" "key_ok L key0"
  by (simp_all add: key0_def toy_random_read_def key_ok_def)

lemma test_container_ok: "container_ok toy_libs test_container"
  by (simp add: container_ok_def test_container_def key0_lengths SALT_SIZE_def BLOCK_SIZE_def
      is_str_def decodes_def toy_libs_def toy_utf8_roundtrip)

theorem encrypt_from_data_round_trip_witness:
  "container_ok toy_libs test_container
   \<and> (\<exists>ct mac.
         fst (encrypt toy_libs test_container ''password'')
           = Inr (entry_json (b64encode toy_libs ct) mac (get_key_json toy_libs key0))
         \<and> (\<exists>c' w'. from_data toy_libs ''password'' (py_str 5) ct (JStr mac)
                        (salt key0) (iv key0) world0 = (Inr c', w')
                      \<and> container_eq c' test_container))"
  using encrypt_from_data_round_trip [OF toy_libs_ok test_container_ok, of "''password''" world0]
    test_container_ok
  by (simp add: test_container_def)


section \<open>The small instance: keys, tags and the container \<open>cat\<close>\<close>

text \<open>
  The checksum that stands for HMAC tells two keys apart whenever the sums of their bytes
  differ, whatever the message; and the key derivation that stands for PBKDF2 does not
  tell a password from the same password followed by a NUL character. (HMAC itself pads
  a key shorter than its block with zero bytes, and PBKDF2-HMAC uses the password as
  that key, so the real derivation does not tell them apart either.)
\<close>

lemma checksum_start_inj:
  "foldl (\<lambda>a b. 3 * a + b) x m = foldl (\<lambda>a b. 3 * a + b) y m \<Longrightarrow> x = (y :: byte)"
proof (induction m arbitrary: x y)
  case Nil
  then show ?case by simp
next
  case (Cons b m)
  have "foldl (\<lambda>a b. 3 * a + b) (3 * x + b) m = foldl (\<lambda>a b. 3 * a + b) (3 * y + b) m"
    using Cons.prems by simp
  then have "3 * x + b = 3 * y + b"
    by (rule Cons.IH)
  then have "3 * x = 3 * y"
    by (simp only: add_right_cancel)
  then have "171 * (3 * x) = 171 * (3 * y)"
    by (simp only:)
  then have "(171 * 3) * x = (171 * 3) * y"
    by (simp only: mult.assoc)
  moreover have "(171 * 3 :: byte) = 1"
    by simp
  ultimately show ?case
    by (simp only: mult_1)
qed

lemma hex_byte_inj: "hex_byte a = hex_byte b \<Longrightarrow> a = b"
  using decode_hex_byte [of a "[]"] decode_hex_byte [of b "[]"] by simp

lemma toy_tag_differs:
  assumes "sum_list k \<noteq> sum_list k'"
  shows "toy_hmac_hexdigest k m \<noteq> toy_hmac_hexdigest k' m"
proof
  assume e: "toy_hmac_hexdigest k m = toy_hmac_hexdigest k' m"
  have u: "[0..<32] = 0 # [1..<32]"
    by (simp add: upt_conv_Cons)
  have "hex_byte (checksum k m) @ concat (map (\<lambda>j. hex_byte (checksum k m + of_nat j)) [1..<32])
      = hex_byte (checksum k' m)
          @ concat (map (\<lambda>j. hex_byte (checksum k' m + of_nat j)) [1..<32])"
    using e unfolding toy_hmac_hexdigest_def u by simp
  then have "hex_byte (checksum k m) = hex_byte (checksum k' m)"
    by (simp add: hex_byte_def)
  then have "checksum k m = checksum k' m"
    by (rule hex_byte_inj)
  then have "sum_list k = sum_list k'"
    unfolding checksum_def by (rule checksum_start_inj)
  then show False
    using assms by simp
qed

lemma toy_nul_key: "derive toy_libs (password @ [CHR 0x00]) s = derive toy_libs password s"
  by (simp add: derive_def toy_libs_def toy_pbkdf2_def toy_utf8_encode_def utf8_char_def)

lemma entry_json_b64_inject:
  assumes "b64_ok L"
    and "entry_json (b64encode L ct) m k = entry_json (b64encode L ct') m' k'"
  shows "ct = ct'" "m = m'"
proof -
  have e: "b64encode L ct = b64encode L ct'" and m: "m = m'"
    using assms(2) by (simp_all add: entry_json_def)
  have "b64decode L (b64encode L ct) = b64decode L (b64encode L ct')"
    by (simp only: e)
  then show "ct = ct'"
    using assms(1) by (simp add: b64_ok_def)
  show "m = m'" by (rule m)
qed

lemma cat_container_ok: "container_ok toy_libs cat_container"
  by (simp add: container_ok_def cat_container_def key0_lengths SALT_SIZE_def BLOCK_SIZE_def
      is_str_def decodes_def toy_libs_def toy_utf8_roundtrip)

lemma cat_entry:
  "fst (encrypt toy_libs cat_container ''password'')
     = Inr (entry_json (b64encode toy_libs cat_ciphertext) cat_mac (get_key_json toy_libs key0))"
  by code_simp

lemma cat_loads:
  "\<exists>c' w'. from_data toy_libs ''password'' ''5'' cat_ciphertext (JStr cat_mac)
              (salt key0) (iv key0) w = (Inr c', w')
           \<and> c_id c' = 5 \<and> c_name c' = JStr ''cat'' \<and> c_data c' = toy_utf8_encode ''Test Data''"
proof -
  obtain ct mac c' w' where r:
      "fst (encrypt toy_libs cat_container ''password'')
         = Inr (entry_json (b64encode toy_libs ct) mac
                  (get_key_json toy_libs (c_key cat_container)))"
      "from_data toy_libs ''password'' (py_str (c_id cat_container)) ct (JStr mac)
         (salt (c_key cat_container)) (iv (c_key cat_container)) w = (Inr c', w')"
      "c_id c' = c_id cat_container" "c_name c' = c_name cat_container"
      "c_data c' = c_data cat_container"
    using from_data_of_encrypt [OF toy_libs_ok cat_container_ok, of "''password''" w] by blast
  have "entry_json (b64encode toy_libs ct) mac (get_key_json toy_libs (c_key cat_container))
      = entry_json (b64encode toy_libs cat_ciphertext) cat_mac (get_key_json toy_libs key0)"
    using r(1) cat_entry by simp
  then have c: "ct = cat_ciphertext" "mac = cat_mac"
    by (rule entry_json_b64_inject [OF toy_b64_ok])+
  have i: "py_str 5 = ''5''"
    by code_simp
  show ?thesis
    using r(2,3,4,5) unfolding c by (auto simp add: cat_container_def i)
qed


section \<open>The integrity check of \<open>from_data\<close>\<close>

text \<open>
  \<open>from_data\<close> uses the password only through the key derived from it: two passwords that
  derive the same key under the salt give the same result, up to the password cached in
  the loaded key.
\<close>

lemma decrypt_into_loaded_key:
  "map_sum id (\<lambda>c. (c_id c, c_name c, c_data c)) (decrypt_into L c lk K v ct)
     = map_sum id (\<lambda>c. (c_id c, c_name c, c_data c)) (decrypt_into L c lk' K v ct)"
  by (simp add: decrypt_into_def split: sum.splits)

lemma from_data_same_key:
  assumes "derive L p s = derive L q s"
  shows "map_sum id (\<lambda>c. (c_id c, c_name c, c_data c)) (fst (from_data L p i ct mac s v w))
       = map_sum id (\<lambda>c. (c_id c, c_name c, c_data c)) (fst (from_data L q i ct mac s v w))"
proof (cases "length s = SALT_SIZE \<and> length v = BLOCK_SIZE")
  case False
  then show ?thesis
    by (simp add: from_data_malformed)
next
  case True
  then have l: "length s = SALT_SIZE" "length v = BLOCK_SIZE" by simp_all
  show ?thesis
  proof (cases "py_int L i")
    case (Inl e)
    then show ?thesis
      by (simp add: from_data_bad_id [OF l])
  next
    case (Inr n)
    show ?thesis
      unfolding from_data_checked [OF l Inr] assms
      using decrypt_into_loaded_key
        [of L "fst (Container_init L (Some n) w)"
           "\<lparr>salt = s, iv = v, aeskey = Some (derive L q s), prev_password = Some p\<rparr>"
           "derive L q s" v ct
           "\<lparr>salt = s, iv = v, aeskey = Some (derive L q s), prev_password = Some q\<rparr>"]
      by (simp split: sum.splits)
  qed
qed

text \<open>
  C2 (tag mismatch), as claimed for every call with a salt and an IV of the right
  lengths, and for every incorrect password. First, \<open>from_data\<close> constructs
  \<open>Container(int(id))\<close> before it computes the tag, so an id that is not an integer literal
  raises the \<open>ValueError\<close> of \<open>int()\<close> although the tag does not match. (A tag that is not
  an ASCII \<open>str\<close> makes \<open>compare_digest\<close> raise \<open>TypeError\<close> likewise.) Second, an incorrect
  password need not give another tag: the container \<open>cat\<close>, encrypted under \<open>password\<close>,
  opens under \<open>password\<close> followed by a NUL character, which derives the same key.
\<close>

theorem bad_id_and_padded_password_escape_the_integrity_error:
  "from_data toy_libs ''password'' ''x'' [] (JStr ''invalid'') (salt key0) (iv key0) world0
     = (Inl (Raised invalid_literal), world0)
   \<and> hmac_hexdigest toy_libs (derive toy_libs ''password'' (salt key0))
        (utf8_encode toy_libs ''x'' @ []) \<noteq> ''invalid''
   \<and> fst (encrypt toy_libs cat_container ''password'')
       = Inr (entry_json (b64encode toy_libs cat_ciphertext) cat_mac
                (get_key_json toy_libs key0))
   \<and> ''password'' @ [CHR 0x00] \<noteq> ''password''
   \<and> map_sum id (\<lambda>c. (c_id c, c_name c, c_data c))
        (fst (from_data toy_libs (''password'' @ [CHR 0x00]) ''5'' cat_ciphertext (JStr cat_mac)
                (salt key0) (iv key0) world0))
       = Inr (5, JStr ''cat'', toy_utf8_encode ''Test Data'')"
proof -
  have "toy_int ''x'' = Inl invalid_literal"
    by (simp add: toy_int_def is_digit_def)
  then have a: "from_data toy_libs ''password'' ''x'' [] (JStr ''invalid'') (salt key0) (iv key0)
                  world0 = (Inl (Raised invalid_literal), world0)"
    by (simp add: from_data_bad_id key0_lengths SALT_SIZE_def BLOCK_SIZE_def toy_libs_def)
  have "length (hmac_hexdigest toy_libs (derive toy_libs ''password'' (salt key0))
                  (utf8_encode toy_libs ''x'' @ [])) = 64"
    using toy_hmac_ok by (simp add: hmac_ok_def)
  then have b: "hmac_hexdigest toy_libs (derive toy_libs ''password'' (salt key0))
                  (utf8_encode toy_libs ''x'' @ []) \<noteq> ''invalid''"
    by auto
  obtain c' w' where c:
      "from_data toy_libs ''password'' ''5'' cat_ciphertext (JStr cat_mac)
         (salt key0) (iv key0) world0 = (Inr c', w')"
      "c_id c' = 5" "c_name c' = JStr ''cat''" "c_data c' = toy_utf8_encode ''Test Data''"
    using cat_loads [of world0] by blast
  have d: "map_sum id (\<lambda>c. (c_id c, c_name c, c_data c))
        (fst (from_data toy_libs (''password'' @ [CHR 0x00]) ''5'' cat_ciphertext (JStr cat_mac)
                (salt key0) (iv key0) world0))
       = Inr (5, JStr ''cat'', toy_utf8_encode ''Test Data'')"
    unfolding from_data_same_key [OF toy_nul_key] c(1)
    by (simp add: c(2,3,4))
  show ?thesis
    using a b cat_entry d by simp
qed

text \<open>
  C2, as the code has it. For every call of \<open>from_data\<close> with a salt and an IV of the right
  lengths, an id that \<open>int()\<close> accepts and a tag that is an ASCII \<open>str\<close>: if the tag
  recomputed over the id bytes and the ciphertext differs from the given one, the call
  raises \<open>LoadContainerError\<close> with the message that names the id. In particular this is
  so when the ciphertext and the tag are those that \<open>encrypt\<close> made of a container under
  the password \<open>sealing\<close>, and the call is given a password whose derived key gives another
  tag for the same id and ciphertext. The result is the same whatever function stands
  for AES decryption (\<open>f\<close>) and for the JSON parser (\<open>g\<close>): neither is consulted, and no
  padding is removed, before the comparison has succeeded.
\<close>

theorem from_data_tag_mismatch:
  assumes "hmac_ok L"
  shows "(length s = SALT_SIZE \<longrightarrow> length v = BLOCK_SIZE \<longrightarrow> py_int L i = Inr n \<longrightarrow> ascii m \<longrightarrow>
            hmac_hexdigest L (derive L password s) (utf8_encode L i @ ct) \<noteq> m \<longrightarrow>
            fst (from_data (L\<lparr>aes_cbc_decrypt := f, json_loads := g\<rparr>) password i ct (JStr m)
                   s v w)
              = Inl (LoadContainerError (invalid_mac_msg i)))
       \<and> (libs_ok L \<longrightarrow> container_ok L c \<longrightarrow>
            fst (encrypt L c sealing) = Inr (entry_json (b64encode L ct') m' k) \<longrightarrow>
            hmac_hexdigest L (derive L password (salt (c_key c)))
                (utf8_encode L (py_str (c_id c)) @ ct')
              \<noteq> hmac_hexdigest L (derive L sealing (salt (c_key c)))
                  (utf8_encode L (py_str (c_id c)) @ ct') \<longrightarrow>
            fst (from_data (L\<lparr>aes_cbc_decrypt := f, json_loads := g\<rparr>) password
                   (py_str (c_id c)) ct' (JStr m') (salt (c_key c)) (iv (c_key c)) w)
              = Inl (LoadContainerError (invalid_mac_msg (py_str (c_id c)))))"
proof -
  define L' where "L' = L\<lparr>aes_cbc_decrypt := f, json_loads := g\<rparr>"
  have mismatch: "fst (from_data L' password i ct (JStr m) s v w)
                    = Inl (LoadContainerError (invalid_mac_msg i))"
    if l: "length s = SALT_SIZE" "length v = BLOCK_SIZE" and n: "py_int L i = Inr n"
      and m: "ascii m" "hmac_hexdigest L (derive L password s) (utf8_encode L i @ ct) \<noteq> m"
    for s v i n m ct
  proof -
    have i: "py_int L' i = Inr n" using n by (simp add: L'_def)
    have h: "hmac_hexdigest L' (derive L' password s) (utf8_encode L' i @ ct)
        = hmac_hexdigest L (derive L password s) (utf8_encode L i @ ct)"
      by (simp add: L'_def derive_def)
    have a: "ascii (hmac_hexdigest L (derive L password s) (utf8_encode L i @ ct))"
      using assms by (simp add: hmac_ok_def)
    show ?thesis
      unfolding from_data_checked [OF l i] h
      using a m by simp
  qed
  have wrong: "fst (from_data L' password (py_str (c_id c)) ct' (JStr m')
                      (salt (c_key c)) (iv (c_key c)) w)
                 = Inl (LoadContainerError (invalid_mac_msg (py_str (c_id c))))"
    if ok: "libs_ok L" "container_ok L c"
      and e: "fst (encrypt L c sealing) = Inr (entry_json (b64encode L ct') m' k)"
      and t: "hmac_hexdigest L (derive L password (salt (c_key c)))
                  (utf8_encode L (py_str (c_id c)) @ ct')
                \<noteq> hmac_hexdigest L (derive L sealing (salt (c_key c)))
                    (utf8_encode L (py_str (c_id c)) @ ct')"
  proof -
    have L: "aes_ok L" "kdf_ok L" "b64_ok L" "int_ok L"
      using ok(1) by (simp_all add: libs_ok_def)
    have c: "key_ok L (c_key c)" "length (salt (c_key c)) = SALT_SIZE"
        "length (iv (c_key c)) = BLOCK_SIZE" "decodes L (c_data c)"
      using ok(2) by (simp_all add: container_ok_def)
    obtain d where d: "utf8_decode L (c_data c) = Inr d"
      using c(4) by (auto simp add: decodes_def split: sum.splits)
    obtain ct0 where ct0:
        "encrypt L c sealing
           = (Inr (entry_json (b64encode L ct0)
                     (hmac_hexdigest L (derive L sealing (salt (c_key c)))
                        (utf8_encode L (py_str (c_id c)) @ ct0))
                     (get_key_json L (c_key c))),
              c\<lparr>c_key := snd (generate_aes_key L (c_key c) sealing)\<rparr>)"
      using encrypt_decodable [OF L(1,2) c(1,3) d, of sealing] by blast
    have "entry_json (b64encode L ct') m' k
            = entry_json (b64encode L ct0)
                (hmac_hexdigest L (derive L sealing (salt (c_key c)))
                   (utf8_encode L (py_str (c_id c)) @ ct0))
                (get_key_json L (c_key c))"
      using e ct0 by simp
    then have "ct' = ct0"
        "m' = hmac_hexdigest L (derive L sealing (salt (c_key c)))
                (utf8_encode L (py_str (c_id c)) @ ct0)"
      by (rule entry_json_b64_inject [OF L(3)])+
    then have m': "m' = hmac_hexdigest L (derive L sealing (salt (c_key c)))
                          (utf8_encode L (py_str (c_id c)) @ ct')"
      by simp
    have a: "ascii m'"
      unfolding m' using assms by (simp add: hmac_ok_def)
    have n: "py_int L (py_str (c_id c)) = Inr (c_id c)"
      using L(4) by (simp add: int_ok_def)
    show ?thesis
      using c(2,3) n a t unfolding m' [symmetric] by (rule mismatch)
  qed
  show ?thesis
    unfolding L'_def [symmetric] using mismatch wrong by blast
qed

theorem from_data_tag_mismatch_witness:
  "length (salt key0) = SALT_SIZE \<and> length (iv key0) = BLOCK_SIZE
   \<and> py_int toy_libs ''5'' = Inr 5 \<and> ascii ''invalid''
   \<and> hmac_hexdigest toy_libs (derive toy_libs ''invalid'' (salt key0))
        (utf8_encode toy_libs ''5'' @ [1, 2, 3]) \<noteq> ''invalid''
   \<and> (\<forall>f g. fst (from_data (toy_libs\<lparr>aes_cbc_decrypt := f, json_loads := g\<rparr>) ''invalid'' ''5''
                    [1, 2, 3] (JStr ''invalid'') (salt key0) (iv key0) world0)
                = Inl (LoadContainerError (invalid_mac_msg ''5'')))
   \<and> container_ok toy_libs cat_container
   \<and> fst (encrypt toy_libs cat_container ''password'')
       = Inr (entry_json (b64encode toy_libs cat_ciphertext) cat_mac
                (get_key_json toy_libs key0))
   \<and> hmac_hexdigest toy_libs (derive toy_libs ''wrong'' (salt key0))
        (utf8_encode toy_libs ''5'' @ cat_ciphertext)
       \<noteq> hmac_hexdigest toy_libs (derive toy_libs ''password'' (salt key0))
           (utf8_encode toy_libs ''5'' @ cat_ciphertext)
   \<and> (\<forall>f g. fst (from_data (toy_libs\<lparr>aes_cbc_decrypt := f, json_loads := g\<rparr>) ''wrong'' ''5''
                    cat_ciphertext (JStr cat_mac) (salt key0) (iv key0) world0)
                = Inl (LoadContainerError (invalid_mac_msg ''5'')))"
proof -
  have l: "length (salt key0) = SALT_SIZE" "length (iv key0) = BLOCK_SIZE"
    by (simp_all add: key0_lengths SALT_SIZE_def BLOCK_SIZE_def)
  have i: "py_int toy_libs ''5'' = Inr 5"
    by (simp add: toy_libs_def toy_int_def is_digit_def decimal_def)
  have a: "ascii ''invalid''"
    by (simp add: ascii_def)
  have "length (hmac_hexdigest toy_libs (derive toy_libs ''invalid'' (salt key0))
        (utf8_encode toy_libs ''5'' @ [1, 2, 3])) = 64"
    using toy_hmac_ok by (simp add: hmac_ok_def)
  then have m: "hmac_hexdigest toy_libs (derive toy_libs ''invalid'' (salt key0))
        (utf8_encode toy_libs ''5'' @ [1, 2, 3]) \<noteq> ''invalid''"
    by auto
  have s: "sum_list (derive toy_libs ''wrong'' (salt key0))
             \<noteq> sum_list (derive toy_libs ''password'' (salt key0))"
    by code_simp
  have t: "hmac_hexdigest toy_libs (derive toy_libs ''wrong'' (salt key0))
             (utf8_encode toy_libs ''5'' @ cat_ciphertext)
           \<noteq> hmac_hexdigest toy_libs (derive toy_libs ''password'' (salt key0))
               (utf8_encode toy_libs ''5'' @ cat_ciphertext)"
    using toy_tag_differs [OF s] by (simp add: toy_libs_def)
  have p: "py_str (c_id cat_container) = ''5''"
    by code_simp
  have k: "salt (c_key cat_container) = salt key0" "iv (c_key cat_container) = iv key0"
    by (simp_all add: cat_container_def)
  have one: "fst (from_data (toy_libs\<lparr>aes_cbc_decrypt := f, json_loads := g\<rparr>) ''invalid'' ''5''
                    [1, 2, 3] (JStr ''invalid'') (salt key0) (iv key0) world0)
                = Inl (LoadContainerError (invalid_mac_msg ''5''))" for f g
    using from_data_tag_mismatch [OF toy_hmac_ok, where s = "salt key0" and v = "iv key0"
        and i = "''5''" and n = 5 and m = "''invalid''" and password = "''invalid''"
        and ct = "[1, 2, 3]" and f = f and g = g and w = world0]
      l i a m
    by blast
  have two: "fst (from_data (toy_libs\<lparr>aes_cbc_decrypt := f, json_loads := g\<rparr>) ''wrong'' ''5''
                    cat_ciphertext (JStr cat_mac) (salt key0) (iv key0) world0)
                = Inl (LoadContainerError (invalid_mac_msg ''5''))" for f g
    using from_data_tag_mismatch [OF toy_hmac_ok, where password = "''wrong''" and f = f
        and g = g and w = world0 and c = cat_container and sealing = "''password''"
        and ct' = cat_ciphertext and m' = cat_mac and k = "get_key_json toy_libs key0"]
      toy_libs_ok cat_container_ok cat_entry t
    unfolding p k
    by blast
  show ?thesis
    using l i a m one two cat_container_ok cat_entry t by blast
qed

section \<open>What \<open>encrypt\<close> serialises\<close>

text \<open>
  C9 (arbitrary bytes), as claimed: \<open>encrypt\<close> does not serialise the bytes of \<open>data\<close> but
  the text they decode to, and a payload that is not UTF-8 (here \<open>a\<close> followed by a
  truncated two-byte sequence) makes it raise \<open>UnicodeDecodeError\<close>.
\<close>

theorem encrypt_rejects_arbitrary_bytes:
  "encrypt toy_libs truncated_container ''password''
     = (Inl (Raised invalid_utf8), truncated_container)"
  by (simp add: encrypt_def truncated_container_def toy_libs_def)

text \<open>
  C9, as the code has it. \<open>Container.encrypt\<close> decodes \<open>data\<close> as UTF-8 and serialises the
  record of the name and the decoded text with \<open>json.dumps\<close>. For a container with a
  well-formed key and a name that is a text: if the data does not decode, encrypt raises
  the decoder's exception and the container is unchanged; if it decodes to \<open>d\<close>, whatever
  characters the name and \<open>d\<close> hold, encrypt succeeds, its ciphertext decrypts (under the
  derived key and the IV) to the padded UTF-8 encoding of the JSON text of \<open>{name, d}\<close>,
  and \<open>from_data\<close> on its result succeeds and returns a container with the same name and
  the same bytes of data, which \<open>get_data\<close> reads as \<open>d\<close>.
\<close>

theorem encrypt_round_trip_preserves_text:
  assumes "libs_ok L"
    and "key_ok L (c_key c)" "length (salt (c_key c)) = SALT_SIZE"
    and "length (iv (c_key c)) = BLOCK_SIZE" "c_name c = JStr n"
  shows "case utf8_decode L (c_data c) of
           Inl e \<Rightarrow> encrypt L c password = (Inl (Raised e), c)
         | Inr d \<Rightarrow>
             (\<exists>ct mac.
                fst (encrypt L c password)
                  = Inr (entry_json (b64encode L ct) mac (get_key_json L (c_key c)))
                \<and> aes_cbc_decrypt L (derive L password (salt (c_key c))) (iv (c_key c)) ct
                    = Inr (pad (utf8_encode L (json_dumps L None (record_json (JStr n) d)))
                             BLOCK_SIZE)
                \<and> (\<exists>c' w'. from_data L password (py_str (c_id c)) ct (JStr mac)
                               (salt (c_key c)) (iv (c_key c)) w = (Inr c', w')
                             \<and> c_name c' = JStr n \<and> c_data c' = c_data c
                             \<and> get_data L c' = Inr d))"
proof (cases "utf8_decode L (c_data c)")
  case (Inl e)
  then show ?thesis
    by (simp add: encrypt_undecodable)
next
  case (Inr d)
  have L: "aes_ok L" "kdf_ok L" "b64_ok L"
    using assms(1) by (simp_all add: libs_ok_def)
  have ok: "container_ok L c"
    using assms(2-5) Inr by (simp add: container_ok_def is_str_def decodes_def)
  obtain ct0 where ct0:
      "encrypt L c password
         = (Inr (entry_json (b64encode L ct0)
                   (hmac_hexdigest L (derive L password (salt (c_key c)))
                      (utf8_encode L (py_str (c_id c)) @ ct0))
                   (get_key_json L (c_key c))),
            c\<lparr>c_key := snd (generate_aes_key L (c_key c) password)\<rparr>)"
      "aes_cbc_decrypt L (derive L password (salt (c_key c))) (iv (c_key c)) ct0
         = Inr (plaintext_of L c d)"
    using encrypt_decodable [OF L(1,2) assms(2,4) Inr, of password] by blast
  obtain ct mac c' w' where r:
      "fst (encrypt L c password)
         = Inr (entry_json (b64encode L ct) mac (get_key_json L (c_key c)))"
      "from_data L password (py_str (c_id c)) ct (JStr mac)
         (salt (c_key c)) (iv (c_key c)) w = (Inr c', w')"
      "c_name c' = c_name c" "c_data c' = c_data c"
    using from_data_of_encrypt [OF assms(1) ok, of password w] by blast
  have "entry_json (b64encode L ct) mac (get_key_json L (c_key c))
          = entry_json (b64encode L ct0)
              (hmac_hexdigest L (derive L password (salt (c_key c)))
                 (utf8_encode L (py_str (c_id c)) @ ct0))
              (get_key_json L (c_key c))"
    using r(1) ct0(1) by simp
  then have "ct = ct0"
    by (rule entry_json_b64_inject [OF L(3)])
  then have p: "aes_cbc_decrypt L (derive L password (salt (c_key c))) (iv (c_key c)) ct
                  = Inr (pad (utf8_encode L (json_dumps L None (record_json (JStr n) d)))
                           BLOCK_SIZE)"
    using ct0(2) by (simp add: plaintext_of_def assms(5))
  have g: "get_data L c' = Inr d"
    using Inr r(4) by (simp add: get_data_def)
  show ?thesis
    unfolding Inr using r(1,2) p r(3,4) g assms(5) by auto
qed

lemma tricky_decodes: "utf8_decode toy_libs (c_data tricky_container) = Inr tricky_data"
  by (simp add: tricky_container_def toy_libs_def toy_utf8_roundtrip)

theorem encrypt_round_trip_preserves_text_witness:
  "key_ok toy_libs (c_key tricky_container)
   \<and> length (salt (c_key tricky_container)) = SALT_SIZE
   \<and> length (iv (c_key tricky_container)) = BLOCK_SIZE
   \<and> c_name tricky_container = JStr tricky_name
   \<and> utf8_decode toy_libs (c_data tricky_container) = Inr tricky_data
   \<and> (\<exists>ct mac.
         fst (encrypt toy_libs tricky_container ''password'')
           = Inr (entry_json (b64encode toy_libs ct) mac
                    (get_key_json toy_libs (c_key tricky_container)))
         \<and> aes_cbc_decrypt toy_libs (derive toy_libs ''password'' (salt (c_key tricky_container)))
               (iv (c_key tricky_container)) ct
             = Inr (pad (utf8_encode toy_libs (json_dumps toy_libs None
                           (record_json (JStr tricky_name) tricky_data))) BLOCK_SIZE)
         \<and> (\<exists>c' w'. from_data toy_libs ''password'' (py_str (c_id tricky_container)) ct
                        (JStr mac) (salt (c_key tricky_container))
                        (iv (c_key tricky_container)) world0 = (Inr c', w')
                      \<and> c_name c' = JStr tricky_name
                      \<and> c_data c' = c_data tricky_container
                      \<and> get_data toy_libs c' = Inr tricky_data))"
proof -
  have k: "key_ok toy_libs (c_key tricky_container)"
      "length (salt (c_key tricky_container)) = SALT_SIZE"
      "length (iv (c_key tricky_container)) = BLOCK_SIZE"
      "c_name tricky_container = JStr tricky_name"
    by (simp_all add: tricky_container_def key0_lengths SALT_SIZE_def BLOCK_SIZE_def)
  show ?thesis
    using encrypt_round_trip_preserves_text [OF toy_libs_ok k, of "''password''" world0]
      k tricky_decodes
    by simp
qed

section \<open>Which exception the caller of the vault sees\<close>

lemma from_data_mismatch:
  assumes "length s = SALT_SIZE" "length v = BLOCK_SIZE" "py_int L i = Inr n"
    and "hmac_ok L" "ascii m"
    and "hmac_hexdigest L (derive L password s) (utf8_encode L i @ ct) \<noteq> m"
  shows "from_data L password i ct (JStr m) s v w
           = (Inl (LoadContainerError (invalid_mac_msg i)), snd (Container_init L (Some n) w))"
proof -
  have a: "ascii (hmac_hexdigest L (derive L password s) (utf8_encode L i @ ct))"
    using assms(4) by (simp add: hmac_ok_def)
  show ?thesis
    unfolding from_data_checked [OF assms(1,2,3)]
    using a assms(5,6) by simp
qed

lemma key_field_key_json:
  "key_field L (entry_json ct m (key_json s v)) ''salt'' = b64decode L s"
  "key_field L (entry_json ct m (key_json s v)) ''iv'' = b64decode L v"
  "key_field L (document_json es (key_json s v) m) ''salt'' = b64decode L s"
  "key_field L (document_json es (key_json s v) m) ''iv'' = b64decode L v"
  by (simp_all add: key_field_def entry_json_def document_json_def key_json_def)

lemma from_entry_entry_json:
  assumes "b64_ok L"
  shows "from_entry L password i
           (entry_json (b64encode L ct) m (key_json (b64encode L s) (b64encode L v))) w
         = from_data L password i ct (JStr m) s v w"
proof -
  have b: "b64decode L (b64encode L x) = Inr x" for x
    using assms by (simp add: b64_ok_def)
  have g: "getitem (entry_json (b64encode L ct) m (key_json (b64encode L s) (b64encode L v)))
             ''ciphertext'' = Inr (JStr (b64encode L ct))"
      "getitem (entry_json (b64encode L ct) m (key_json (b64encode L s) (b64encode L v)))
             ''mac'' = Inr (JStr m)"
    by (simp_all add: entry_json_def)
  show ?thesis
    unfolding from_entry_def g key_field_key_json
    by (simp add: b)
qed

lemma read_document_cases:
  "(\<exists>d. read_document L path w = Inr d)
   \<or> (\<exists>e. read_document L path w = Inl (Raised e))
   \<or> read_document L path w = Inl (LoadVaultError invalid_json_msg)"
  by (auto simp add: read_document_def split: option.splits sum.splits exc.splits)

lemma read_document_file:
  "files w path = Some t \<Longrightarrow> json_loads L t = Inr d \<Longrightarrow> read_document L path w = Inr d"
  by (simp add: read_document_def)

lemma fetch_container_cases:
  "read_document L path w = Inr d \<Longrightarrow>
     (\<exists>c. fst (fetch_container L i password path w) = Inr c)
     \<or> fst (fetch_container L i password path w) = Inl (LoadVaultError (fetch_error_msg i))"
  by (auto simp add: fetch_container_def Let_def split: sum.splits prod.splits)

lemma fetch_container_entry_error:
  assumes "read_document L path w = Inr d" "getitem d ''containers'' = Inr cs"
    and "getitem cs i = Inr c" "fst (from_entry L password i c w) = Inl e"
  shows "fst (fetch_container L i password path w) = Inl (LoadVaultError (fetch_error_msg i))"
proof -
  obtain w' where "from_entry L password i c w = (Inl e, w')"
    using assms(4) by (cases "from_entry L password i c w") simp
  then show ?thesis
    by (simp add: fetch_container_def assms(1,2,3))
qed

lemma load_entries_append:
  "load_entries L password (pre @ post) w =
     (case load_entries L password pre w of
        (Inl e, w1) \<Rightarrow> (Inl e, w1)
      | (Inr xs, w1) \<Rightarrow>
          (case load_entries L password post w1 of
             (Inl e, w2) \<Rightarrow> (Inl e, w2)
           | (Inr ys, w2) \<Rightarrow> (Inr (xs @ ys), w2)))"
  by (induction pre arbitrary: w) (auto split: prod.splits sum.splits)

lemma load_entries_first_error:
  assumes "load_entries L password pre w = (Inr xs, w1)"
    and "fst (from_entry L password i c w1) = Inl e"
  shows "fst (load_entries L password (pre @ (i, c) # post) w) = Inl e"
proof -
  obtain w2 where "from_entry L password i c w1 = (Inl e, w2)"
    using assms(2) by (cases "from_entry L password i c w1") simp
  then show ?thesis
    by (simp add: load_entries_append assms(1))
qed

lemma load_from_file_not_container_error:
  "fst (load_from_file L v path w) \<noteq> Inl (LoadContainerError m)"
proof (cases "read_document L path w")
  case (Inl e)
  then show ?thesis
    using read_document_cases [of L path w]
    by (auto simp add: load_from_file_def)
next
  case (Inr d)
  then show ?thesis
    by (auto simp add: load_from_file_def split: prod.splits sum.splits error.splits)
qed

lemma load_from_file_entry_error:
  assumes "read_document L path w = Inr d" "getitem d ''containers'' = Inr cs"
    and "items cs = Inr (pre @ (i, c) # post)"
    and "load_entries L (v_master_password v) pre w = (Inr xs, w1)"
    and "fst (from_entry L (v_master_password v) i c w1) = Inl (LoadContainerError m)"
  shows "fst (load_from_file L v path w) = Inl (LoadVaultError load_failed_msg)"
proof -
  have "fst (load_entries L (v_master_password v) (pre @ (i, c) # post) w)
          = Inl (LoadContainerError m)"
    by (rule load_entries_first_error [OF assms(4,5)])
  then obtain w2 where
      "load_entries L (v_master_password v) (pre @ (i, c) # post) w
         = (Inl (LoadContainerError m), w2)"
    by (cases "load_entries L (v_master_password v) (pre @ (i, c) # post) w") simp
  then have "load_body L v d w = (Inl (LoadContainerError m), w2)"
    by (simp add: load_body_def assms(2,3))
  then show ?thesis
    by (simp add: load_from_file_def assms(1))
qed

lemma json_ok_document:
  "json_ok L \<Longrightarrow> distinct (map fst rows) \<Longrightarrow>
     json_loads L (json_dumps L ind (document_json (map entry_row rows) (key_json s v) m))
       = Inr (document_json (map entry_row rows) (key_json s v) m)"
  by (simp add: json_ok_def)

text \<open>The tampered document on disk, and what \<open>from_data\<close> says about its entry.\<close>

lemma tampered_read:
  "read_document toy_libs ''vault.json'' tampered_world = Inr tampered_document"
proof -
  have "json_loads toy_libs (json_dumps toy_libs (Some 4) tampered_document)
          = Inr tampered_document"
    unfolding tampered_document_def
    by (rule json_ok_document [OF toy_json_ok]) simp
  then show ?thesis
    by (simp add: read_document_def tampered_world_def)
qed

lemma tampered_containers:
  "getitem tampered_document ''containers''
     = Inr (JDict [(''5'', entry_json (b64encode toy_libs [1, 2, 3]) ''invalid''
                            (key_json (b64encode toy_libs (salt key0))
                               (b64encode toy_libs (iv key0))))])"
  by (simp add: tampered_document_def document_json_def entry_row_def)

lemma tampered_entry:
  "from_entry toy_libs ''password'' ''5''
     (entry_json (b64encode toy_libs [1, 2, 3]) ''invalid''
        (key_json (b64encode toy_libs (salt key0)) (b64encode toy_libs (iv key0)))) w
   = (Inl (LoadContainerError (invalid_mac_msg ''5'')),
      snd (Container_init toy_libs (Some 5) w))"
proof -
  have l: "length (salt key0) = SALT_SIZE" "length (iv key0) = BLOCK_SIZE"
    by (simp_all add: key0_lengths SALT_SIZE_def BLOCK_SIZE_def)
  have i: "py_int toy_libs ''5'' = Inr 5"
    by (simp add: toy_libs_def toy_int_def is_digit_def decimal_def)
  have a: "ascii ''invalid''"
    by (simp add: ascii_def)
  have "length (hmac_hexdigest toy_libs (derive toy_libs ''password'' (salt key0))
        (utf8_encode toy_libs ''5'' @ [1, 2, 3])) = 64"
    using toy_hmac_ok by (simp add: hmac_ok_def)
  then have m: "hmac_hexdigest toy_libs (derive toy_libs ''password'' (salt key0))
        (utf8_encode toy_libs ''5'' @ [1, 2, 3]) \<noteq> ''invalid''"
    by auto
  show ?thesis
    unfolding from_entry_entry_json [OF toy_b64_ok]
    by (rule from_data_mismatch [OF l i toy_hmac_ok a m])
qed

text \<open>
  C6 (a failing container during a full load), as claimed: the caller does not see the
  container's integrity error. In the document whose entry for container 5 has a wrong
  tag, \<open>from_data\<close> raises \<open>LoadContainerError\<close> with the message that names container 5,
  and \<open>load_from_file\<close> raises \<open>LoadVaultError\<close> with its general message instead.
\<close>

theorem load_replaces_the_container_error:
  "fst (from_entry toy_libs ''password'' ''5''
          (entry_json (b64encode toy_libs [1, 2, 3]) ''invalid''
             (key_json (b64encode toy_libs (salt key0)) (b64encode toy_libs (iv key0))))
          tampered_world)
     = Inl (LoadContainerError (invalid_mac_msg ''5''))
   \<and> fst (load_from_file toy_libs empty_vault ''vault.json'' tampered_world)
       = Inl (LoadVaultError load_failed_msg)"
proof -
  have e: "fst (from_entry toy_libs (v_master_password empty_vault) ''5''
          (entry_json (b64encode toy_libs [1, 2, 3]) ''invalid''
             (key_json (b64encode toy_libs (salt key0)) (b64encode toy_libs (iv key0))))
          tampered_world)
     = Inl (LoadContainerError (invalid_mac_msg ''5''))"
    by (simp add: tampered_entry empty_vault_def)
  have "fst (load_from_file toy_libs empty_vault ''vault.json'' tampered_world)
       = Inl (LoadVaultError load_failed_msg)"
    by (rule load_from_file_entry_error
          [where pre = "[]" and post = "[]", OF tampered_read tampered_containers _ _ e])
       simp_all
  then show ?thesis
    using e by (simp add: empty_vault_def)
qed

text \<open>
  C6, as the code has it. \<open>load_from_file\<close> never raises \<open>LoadContainerError\<close>. During a
  full load, when the entries before entry \<open>i\<close> load and \<open>from_data\<close> raises
  \<open>LoadContainerError\<close> for entry \<open>i\<close> (its tag does not verify), the whole load aborts
  with \<open>LoadVaultError\<close> and the general message \<open>load_failed_msg\<close>, which does not name the
  container.
\<close>

theorem load_from_file_container_error:
  assumes "read_document L path w = Inr d" "getitem d ''containers'' = Inr cs"
    and "items cs = Inr (pre @ (i, c) # post)"
    and "load_entries L (v_master_password v) pre w = (Inr xs, w1)"
    and "fst (from_entry L (v_master_password v) i c w1) = Inl (LoadContainerError m)"
  shows "fst (load_from_file L v path w) = Inl (LoadVaultError load_failed_msg)
         \<and> (\<forall>m'. fst (load_from_file L v path w) \<noteq> Inl (LoadContainerError m'))"
  using load_from_file_entry_error [OF assms] load_from_file_not_container_error
  by blast

theorem load_from_file_container_error_witness:
  "read_document toy_libs ''vault.json'' tampered_world = Inr tampered_document
   \<and> load_entries toy_libs (v_master_password empty_vault) [] tampered_world
       = (Inr [], tampered_world)
   \<and> fst (from_entry toy_libs (v_master_password empty_vault) ''5''
            (entry_json (b64encode toy_libs [1, 2, 3]) ''invalid''
               (key_json (b64encode toy_libs (salt key0)) (b64encode toy_libs (iv key0))))
            tampered_world)
       = Inl (LoadContainerError (invalid_mac_msg ''5''))
   \<and> fst (load_from_file toy_libs empty_vault ''vault.json'' tampered_world)
       = Inl (LoadVaultError load_failed_msg)
   \<and> (\<forall>m'. fst (load_from_file toy_libs empty_vault ''vault.json'' tampered_world)
             \<noteq> Inl (LoadContainerError m'))"
proof -
  have e: "fst (from_entry toy_libs (v_master_password empty_vault) ''5''
          (entry_json (b64encode toy_libs [1, 2, 3]) ''invalid''
             (key_json (b64encode toy_libs (salt key0)) (b64encode toy_libs (iv key0))))
          tampered_world)
     = Inl (LoadContainerError (invalid_mac_msg ''5''))"
    by (simp add: tampered_entry empty_vault_def)
  have i: "items (JDict [(''5'', entry_json (b64encode toy_libs [1, 2, 3]) ''invalid''
                            (key_json (b64encode toy_libs (salt key0))
                               (b64encode toy_libs (iv key0))))])
      = Inr ([] @ (''5'', entry_json (b64encode toy_libs [1, 2, 3]) ''invalid''
                            (key_json (b64encode toy_libs (salt key0))
                               (b64encode toy_libs (iv key0)))) # [])"
    by simp
  have p: "load_entries toy_libs (v_master_password empty_vault) [] tampered_world
       = (Inr [], tampered_world)"
    by simp
  show ?thesis
    using load_from_file_container_error [OF tampered_read tampered_containers i p e]
      tampered_read p e
    by simp
qed


section \<open>What \<open>fetch_container\<close> raises\<close>

lemma fetch_container_no_containers:
  assumes "read_document L path w = Inr d" "getitem d ''containers'' = Inl e"
  shows "fst (fetch_container L i password path w) = Inl (LoadVaultError (fetch_error_msg i))"
  by (simp add: fetch_container_def assms)

lemma fetch_container_no_id:
  assumes "read_document L path w = Inr d" "getitem d ''containers'' = Inr cs"
    and "getitem cs i = Inl e"
  shows "fst (fetch_container L i password path w) = Inl (LoadVaultError (fetch_error_msg i))"
  by (simp add: fetch_container_def assms)

lemma fetch_container_loaded:
  assumes "read_document L path w = Inr d" "getitem d ''containers'' = Inr cs"
    and "getitem cs i = Inr c" "fst (from_entry L password i c w) = Inr x"
  shows "fst (fetch_container L i password path w) = Inr x"
proof -
  obtain w' where "from_entry L password i c w = (Inr x, w')"
    using assms(4) by (cases "from_entry L password i c w") simp
  then show ?thesis
    by (simp add: fetch_container_def assms(1,2,3))
qed

lemma fetch_container_not_container_error:
  "fst (fetch_container L i password path w) \<noteq> Inl (LoadContainerError m)"
proof (cases "read_document L path w")
  case (Inl e)
  then show ?thesis
    using read_document_cases [of L path w]
    by (auto simp add: fetch_container_def)
next
  case (Inr d)
  then show ?thesis
    using fetch_container_cases [OF Inr, of i password] by auto
qed

text \<open>The files of the examples, as \<open>fetch_container\<close> reads them.\<close>

lemma record_read:
  "read_document toy_libs ''vault.json'' record_world = Inr (record_json (JStr ''cat'') ''Test Data'')"
proof -
  have "json_loads toy_libs (json_dumps toy_libs None (record_json (JStr ''cat'') ''Test Data''))
          = Inr (record_json (JStr ''cat'') ''Test Data'')"
    using toy_json_ok by (simp add: json_ok_def)
  then show ?thesis
    by (simp add: read_document_def record_world_def)
qed

lemma cat_read: "read_document toy_libs ''vault.json'' cat_world = Inr cat_document"
proof -
  have "json_loads toy_libs (json_dumps toy_libs (Some 4) cat_document) = Inr cat_document"
    unfolding cat_document_def
    by (rule json_ok_document [OF toy_json_ok]) simp
  then show ?thesis
    by (simp add: read_document_def cat_world_def)
qed

lemma cat_containers:
  "getitem cat_document ''containers''
     = Inr (JDict [(''5'', entry_json (b64encode toy_libs cat_ciphertext) cat_mac
                            (key_json (b64encode toy_libs (salt key0))
                               (b64encode toy_libs (iv key0)))),
                   (''7'', entry_json (b64encode toy_libs cat_ciphertext) cat_mac
                            (key_json (b64encode toy_libs [1, 2, 3])
                               (b64encode toy_libs (iv key0))))])"
  by (simp add: cat_document_def document_json_def entry_row_def)

text \<open>
  C10 (the error of \<open>fetch_container\<close>), as claimed: the classification of the failure is
  lost, but the id is still named. For the tampered entry of container 5, \<open>from_data\<close>
  raises \<open>LoadContainerError\<close>, and \<open>fetch_container\<close> raises \<open>LoadVaultError\<close> with a message
  that ends with the id it was asked for.
\<close>

theorem fetch_container_error_names_the_id:
  "fst (from_entry toy_libs ''password'' ''5''
          (entry_json (b64encode toy_libs [1, 2, 3]) ''invalid''
             (key_json (b64encode toy_libs (salt key0)) (b64encode toy_libs (iv key0))))
          tampered_world)
     = Inl (LoadContainerError (invalid_mac_msg ''5''))
   \<and> fst (fetch_container toy_libs ''5'' ''password'' ''vault.json'' tampered_world)
       = Inl (LoadVaultError ''There was an error fetching the container with ID 5'')"
proof -
  have e: "fst (from_entry toy_libs ''password'' ''5''
          (entry_json (b64encode toy_libs [1, 2, 3]) ''invalid''
             (key_json (b64encode toy_libs (salt key0)) (b64encode toy_libs (iv key0))))
          tampered_world)
     = Inl (LoadContainerError (invalid_mac_msg ''5''))"
    by (simp add: tampered_entry)
  have g: "getitem (JDict [(''5'', entry_json (b64encode toy_libs [1, 2, 3]) ''invalid''
                            (key_json (b64encode toy_libs (salt key0))
                               (b64encode toy_libs (iv key0))))]) ''5''
      = Inr (entry_json (b64encode toy_libs [1, 2, 3]) ''invalid''
               (key_json (b64encode toy_libs (salt key0)) (b64encode toy_libs (iv key0))))"
    by simp
  have "fst (fetch_container toy_libs ''5'' ''password'' ''vault.json'' tampered_world)
          = Inl (LoadVaultError (fetch_error_msg ''5''))"
    using tampered_read tampered_containers g e by (rule fetch_container_entry_error)
  then show ?thesis
    using e by (simp add: fetch_error_msg_def)
qed

text \<open>
  C10, as the code has it. \<open>fetch_container\<close> never raises \<open>LoadContainerError\<close>. Once the
  file has parsed, every failure is raised as \<open>LoadVaultError\<close> with the one message
  \<open>fetch_error_msg id\<close>, which names the id that was asked for and nothing else: a document
  with no \<open>containers\<close> key, an id that is not in the document, any exception of
  \<open>from_data\<close> or of reading its arguments, among them the \<open>ValueError\<close> for a salt or an IV
  of the wrong length and the \<open>LoadContainerError\<close> for a tag that does not verify. When
  \<open>from_data\<close> returns a container, \<open>fetch_container\<close> returns it.
\<close>

theorem fetch_container_wraps_every_failure:
  "(\<forall>m. fst (fetch_container L i password path w) \<noteq> Inl (LoadContainerError m))
   \<and> (\<forall>d e. read_document L path w = Inr d \<longrightarrow> getitem d ''containers'' = Inl e \<longrightarrow>
          fst (fetch_container L i password path w)
            = Inl (LoadVaultError (fetch_error_msg i)))
   \<and> (\<forall>d cs e. read_document L path w = Inr d \<longrightarrow> getitem d ''containers'' = Inr cs \<longrightarrow>
          getitem cs i = Inl e \<longrightarrow>
          fst (fetch_container L i password path w)
            = Inl (LoadVaultError (fetch_error_msg i)))
   \<and> (\<forall>d cs c e. read_document L path w = Inr d \<longrightarrow> getitem d ''containers'' = Inr cs \<longrightarrow>
          getitem cs i = Inr c \<longrightarrow> fst (from_entry L password i c w) = Inl e \<longrightarrow>
          fst (fetch_container L i password path w)
            = Inl (LoadVaultError (fetch_error_msg i)))
   \<and> (\<forall>d cs c x. read_document L path w = Inr d \<longrightarrow> getitem d ''containers'' = Inr cs \<longrightarrow>
          getitem cs i = Inr c \<longrightarrow> fst (from_entry L password i c w) = Inr x \<longrightarrow>
          fst (fetch_container L i password path w) = Inr x)
   \<and> (\<forall>d cs ct m s v. b64_ok L \<longrightarrow>
          read_document L path w = Inr d \<longrightarrow> getitem d ''containers'' = Inr cs \<longrightarrow>
          getitem cs i
            = Inr (entry_json (b64encode L ct) m (key_json (b64encode L s) (b64encode L v))) \<longrightarrow>
          length s \<noteq> SALT_SIZE \<or> length v \<noteq> BLOCK_SIZE \<longrightarrow>
          fst (fetch_container L i password path w)
            = Inl (LoadVaultError (fetch_error_msg i)))
   \<and> (\<forall>d cs ct m s v n. b64_ok L \<longrightarrow> hmac_ok L \<longrightarrow>
          read_document L path w = Inr d \<longrightarrow> getitem d ''containers'' = Inr cs \<longrightarrow>
          getitem cs i
            = Inr (entry_json (b64encode L ct) m (key_json (b64encode L s) (b64encode L v))) \<longrightarrow>
          length s = SALT_SIZE \<longrightarrow> length v = BLOCK_SIZE \<longrightarrow> py_int L i = Inr n \<longrightarrow> ascii m \<longrightarrow>
          hmac_hexdigest L (derive L password s) (utf8_encode L i @ ct) \<noteq> m \<longrightarrow>
          fst (from_data L password i ct (JStr m) s v w)
            = Inl (LoadContainerError (invalid_mac_msg i))
          \<and> fst (fetch_container L i password path w)
              = Inl (LoadVaultError (fetch_error_msg i)))"
proof (intro conjI allI impI)
  fix m
  show "fst (fetch_container L i password path w) \<noteq> Inl (LoadContainerError m)"
    by (rule fetch_container_not_container_error)
next
  fix d e
  assume "read_document L path w = Inr d" "getitem d ''containers'' = Inl e"
  then show "fst (fetch_container L i password path w)
               = Inl (LoadVaultError (fetch_error_msg i))"
    by (rule fetch_container_no_containers)
next
  fix d cs e
  assume "read_document L path w = Inr d" "getitem d ''containers'' = Inr cs"
    "getitem cs i = Inl e"
  then show "fst (fetch_container L i password path w)
               = Inl (LoadVaultError (fetch_error_msg i))"
    by (rule fetch_container_no_id)
next
  fix d cs c e
  assume "read_document L path w = Inr d" "getitem d ''containers'' = Inr cs"
    "getitem cs i = Inr c" "fst (from_entry L password i c w) = Inl e"
  then show "fst (fetch_container L i password path w)
               = Inl (LoadVaultError (fetch_error_msg i))"
    by (rule fetch_container_entry_error)
next
  fix d cs c x
  assume "read_document L path w = Inr d" "getitem d ''containers'' = Inr cs"
    "getitem cs i = Inr c" "fst (from_entry L password i c w) = Inr x"
  then show "fst (fetch_container L i password path w) = Inr x"
    by (rule fetch_container_loaded)
next
  fix d cs ct m s v
  assume b: "b64_ok L"
    and r: "read_document L path w = Inr d" "getitem d ''containers'' = Inr cs"
      "getitem cs i
         = Inr (entry_json (b64encode L ct) m (key_json (b64encode L s) (b64encode L v)))"
    and l: "length s \<noteq> SALT_SIZE \<or> length v \<noteq> BLOCK_SIZE"
  have "fst (from_entry L password i
               (entry_json (b64encode L ct) m (key_json (b64encode L s) (b64encode L v))) w)
          = Inl (Raised (ValueError ''Invalid data''))"
    unfolding from_entry_entry_json [OF b] from_data_malformed [OF l] by simp
  with r show "fst (fetch_container L i password path w)
                 = Inl (LoadVaultError (fetch_error_msg i))"
    by (rule fetch_container_entry_error)
next
  fix d cs ct m s v n
  assume b: "b64_ok L" and h: "hmac_ok L"
    and r: "read_document L path w = Inr d" "getitem d ''containers'' = Inr cs"
      "getitem cs i
         = Inr (entry_json (b64encode L ct) m (key_json (b64encode L s) (b64encode L v)))"
    and l: "length s = SALT_SIZE" "length v = BLOCK_SIZE" "py_int L i = Inr n"
    and m: "ascii m" "hmac_hexdigest L (derive L password s) (utf8_encode L i @ ct) \<noteq> m"
  have f: "fst (from_data L password i ct (JStr m) s v w)
             = Inl (LoadContainerError (invalid_mac_msg i))"
    unfolding from_data_mismatch [OF l h m] by simp
  then have "fst (from_entry L password i
               (entry_json (b64encode L ct) m (key_json (b64encode L s) (b64encode L v))) w)
          = Inl (LoadContainerError (invalid_mac_msg i))"
    unfolding from_entry_entry_json [OF b] .
  with r show "fst (fetch_container L i password path w)
                 = Inl (LoadVaultError (fetch_error_msg i))"
    by (rule fetch_container_entry_error)
  show "fst (from_data L password i ct (JStr m) s v w)
          = Inl (LoadContainerError (invalid_mac_msg i))"
    by (rule f)
qed

theorem fetch_container_wraps_every_failure_witness:
  "getitem (record_json (JStr ''cat'') ''Test Data'') ''containers'' = Inl (KeyError ''containers'')
   \<and> fst (fetch_container toy_libs ''5'' ''password'' ''vault.json'' record_world)
       = Inl (LoadVaultError (fetch_error_msg ''5''))
   \<and> fst (fetch_container toy_libs ''6'' ''password'' ''vault.json'' tampered_world)
       = Inl (LoadVaultError (fetch_error_msg ''6''))
   \<and> fst (from_data toy_libs ''password'' ''5'' [1, 2, 3] (JStr ''invalid'') (salt key0)
            (iv key0) tampered_world)
       = Inl (LoadContainerError (invalid_mac_msg ''5''))
   \<and> fst (fetch_container toy_libs ''5'' ''password'' ''vault.json'' tampered_world)
       = Inl (LoadVaultError (fetch_error_msg ''5''))
   \<and> (\<forall>m. fst (fetch_container toy_libs ''5'' ''password'' ''vault.json'' tampered_world)
            \<noteq> Inl (LoadContainerError m))
   \<and> fst (fetch_container toy_libs ''7'' ''password'' ''vault.json'' cat_world)
       = Inl (LoadVaultError (fetch_error_msg ''7''))
   \<and> map_sum id (\<lambda>c. (c_id c, c_name c, c_data c))
        (fst (fetch_container toy_libs ''5'' ''password'' ''vault.json'' cat_world))
       = Inr (5, JStr ''cat'', toy_utf8_encode ''Test Data'')"
proof -
  have none: "getitem (record_json (JStr ''cat'') ''Test Data'') ''containers''
                = Inl (KeyError ''containers'')"
    by (simp add: record_json_def)
  have a: "fst (fetch_container toy_libs ''5'' ''password'' ''vault.json'' record_world)
             = Inl (LoadVaultError (fetch_error_msg ''5''))"
    by (rule fetch_container_wraps_every_failure
          [of toy_libs "''5''" "''password''" "''vault.json''" record_world,
            THEN conjunct2, THEN conjunct1, rule_format, OF record_read none])
  have six: "getitem (JDict [(''5'', entry_json (b64encode toy_libs [1, 2, 3]) ''invalid''
                            (key_json (b64encode toy_libs (salt key0))
                               (b64encode toy_libs (iv key0))))]) ''6''
               = Inl (KeyError ''6'')"
    by simp
  have b: "fst (fetch_container toy_libs ''6'' ''password'' ''vault.json'' tampered_world)
             = Inl (LoadVaultError (fetch_error_msg ''6''))"
    by (rule fetch_container_wraps_every_failure
          [of toy_libs "''6''" "''password''" "''vault.json''" tampered_world,
            THEN conjunct2, THEN conjunct2, THEN conjunct1, rule_format,
            OF tampered_read tampered_containers six])
  have l: "length (salt key0) = SALT_SIZE" "length (iv key0) = BLOCK_SIZE"
    by (simp_all add: key0_lengths SALT_SIZE_def BLOCK_SIZE_def)
  have i: "py_int toy_libs ''5'' = Inr 5"
    by (simp add: toy_libs_def toy_int_def is_digit_def decimal_def)
  have asc: "ascii ''invalid''"
    by (simp add: ascii_def)
  have "length (hmac_hexdigest toy_libs (derive toy_libs ''password'' (salt key0))
        (utf8_encode toy_libs ''5'' @ [1, 2, 3])) = 64"
    using toy_hmac_ok by (simp add: hmac_ok_def)
  then have m: "hmac_hexdigest toy_libs (derive toy_libs ''password'' (salt key0))
        (utf8_encode toy_libs ''5'' @ [1, 2, 3]) \<noteq> ''invalid''"
    by auto
  have five: "getitem (JDict [(''5'', entry_json (b64encode toy_libs [1, 2, 3]) ''invalid''
                            (key_json (b64encode toy_libs (salt key0))
                               (b64encode toy_libs (iv key0))))]) ''5''
      = Inr (entry_json (b64encode toy_libs [1, 2, 3]) ''invalid''
               (key_json (b64encode toy_libs (salt key0)) (b64encode toy_libs (iv key0))))"
    by simp
  have c: "fst (from_data toy_libs ''password'' ''5'' [1, 2, 3] (JStr ''invalid'') (salt key0)
                  (iv key0) tampered_world)
             = Inl (LoadContainerError (invalid_mac_msg ''5''))
           \<and> fst (fetch_container toy_libs ''5'' ''password'' ''vault.json'' tampered_world)
               = Inl (LoadVaultError (fetch_error_msg ''5''))"
    by (rule fetch_container_wraps_every_failure
          [of toy_libs "''5''" "''password''" "''vault.json''" tampered_world,
            THEN conjunct2, THEN conjunct2, THEN conjunct2, THEN conjunct2, THEN conjunct2,
            THEN conjunct2, rule_format,
            OF toy_b64_ok toy_hmac_ok tampered_read tampered_containers five l i asc m])
  have d: "fst (fetch_container toy_libs ''5'' ''password'' ''vault.json'' tampered_world)
             \<noteq> Inl (LoadContainerError m)" for m
    by (rule fetch_container_wraps_every_failure
          [of toy_libs "''5''" "''password''" "''vault.json''" tampered_world,
            THEN conjunct1, rule_format])
  have seven: "getitem (JDict [(''5'', entry_json (b64encode toy_libs cat_ciphertext) cat_mac
                            (key_json (b64encode toy_libs (salt key0))
                               (b64encode toy_libs (iv key0)))),
                   (''7'', entry_json (b64encode toy_libs cat_ciphertext) cat_mac
                            (key_json (b64encode toy_libs [1, 2, 3])
                               (b64encode toy_libs (iv key0))))]) ''7''
      = Inr (entry_json (b64encode toy_libs cat_ciphertext) cat_mac
               (key_json (b64encode toy_libs [1, 2, 3]) (b64encode toy_libs (iv key0))))"
    by simp
  have short: "length [1, 2, 3 :: byte] \<noteq> SALT_SIZE \<or> length (iv key0) \<noteq> BLOCK_SIZE"
    by (simp add: SALT_SIZE_def)
  have e: "fst (fetch_container toy_libs ''7'' ''password'' ''vault.json'' cat_world)
             = Inl (LoadVaultError (fetch_error_msg ''7''))"
    by (rule fetch_container_wraps_every_failure
          [of toy_libs "''7''" "''password''" "''vault.json''" cat_world,
            THEN conjunct2, THEN conjunct2, THEN conjunct2, THEN conjunct2, THEN conjunct2,
            THEN conjunct1, rule_format,
            OF toy_b64_ok cat_read cat_containers seven short])
  have cat5: "getitem (JDict [(''5'', entry_json (b64encode toy_libs cat_ciphertext) cat_mac
                            (key_json (b64encode toy_libs (salt key0))
                               (b64encode toy_libs (iv key0)))),
                   (''7'', entry_json (b64encode toy_libs cat_ciphertext) cat_mac
                            (key_json (b64encode toy_libs [1, 2, 3])
                               (b64encode toy_libs (iv key0))))]) ''5''
      = Inr (entry_json (b64encode toy_libs cat_ciphertext) cat_mac
               (key_json (b64encode toy_libs (salt key0)) (b64encode toy_libs (iv key0))))"
    by simp
  obtain c' w' where x:
      "from_data toy_libs ''password'' ''5'' cat_ciphertext (JStr cat_mac)
         (salt key0) (iv key0) cat_world = (Inr c', w')"
      "c_id c' = 5" "c_name c' = JStr ''cat''" "c_data c' = toy_utf8_encode ''Test Data''"
    using cat_loads [of cat_world] by blast
  have y: "fst (from_entry toy_libs ''password'' ''5''
               (entry_json (b64encode toy_libs cat_ciphertext) cat_mac
                  (key_json (b64encode toy_libs (salt key0)) (b64encode toy_libs (iv key0))))
               cat_world) = Inr c'"
    unfolding from_entry_entry_json [OF toy_b64_ok] x(1) by simp
  have "fst (fetch_container toy_libs ''5'' ''password'' ''vault.json'' cat_world) = Inr c'"
    by (rule fetch_container_wraps_every_failure
          [of toy_libs "''5''" "''password''" "''vault.json''" cat_world,
            THEN conjunct2, THEN conjunct2, THEN conjunct2, THEN conjunct2, THEN conjunct1,
            rule_format, OF cat_read cat_containers cat5 y])
  then have f: "map_sum id (\<lambda>c. (c_id c, c_name c, c_data c))
        (fst (fetch_container toy_libs ''5'' ''password'' ''vault.json'' cat_world))
       = Inr (5, JStr ''cat'', toy_utf8_encode ''Test Data'')"
    by (simp add: x(2,3,4))
  show ?thesis
    using none a b c d e f by simp
qed

section \<open>The IV of a container is not covered by its tag\<close>

lemma decrypt_into_not_container_error:
  "decrypt_into L c lk K v ct \<noteq> Inl (LoadContainerError m)"
  by (auto simp add: decrypt_into_def split: sum.splits)

lemma tag_check_ignores_iv:
  assumes "length v = BLOCK_SIZE" "length v' = BLOCK_SIZE"
  shows "(fst (from_data L password i ct mac s v w) = Inl (LoadContainerError m))
         = (fst (from_data L password i ct mac s v' w) = Inl (LoadContainerError m))"
proof (cases "length s = SALT_SIZE")
  case False
  then show ?thesis
    by (simp add: from_data_malformed)
next
  case True
  show ?thesis
  proof (cases "py_int L i")
    case (Inl e)
    then show ?thesis
      by (simp add: from_data_bad_id [OF True] assms)
  next
    case (Inr n)
    show ?thesis
      unfolding from_data_checked [OF True assms(1) Inr] from_data_checked [OF True assms(2) Inr]
      by (auto simp add: decrypt_into_not_container_error split: sum.splits)
  qed
qed

text \<open>
  C3 (tamper detection). The tag of a container is computed over the id and the
  ciphertext under a key derived from the password and the salt; the IV enters neither.
  So a stored IV with one bit flipped passes the integrity check, and CBC decryption
  flips the same bit of the first plaintext block: the container named \<open>cat\<close> loads, with
  no error, as a container named \<open>bat\<close>.
\<close>

theorem flipped_iv_bit_loads_a_different_name:
  "fst (encrypt toy_libs cat_container ''password'')
     = Inr (entry_json (b64encode toy_libs cat_ciphertext) cat_mac (get_key_json toy_libs key0))
   \<and> map2 (XOR) flipped_iv (iv key0) = [0, 0, 0, 0, 0, 0, 0, 1, 0, 0, 0, 0, 0, 0, 0, 0]
   \<and> map_sum id (\<lambda>c. (c_id c, c_name c, c_data c))
        (fst (from_data toy_libs ''password'' ''5'' cat_ciphertext (JStr cat_mac)
                (salt key0) (iv key0) world0))
       = Inr (5, JStr ''cat'', toy_utf8_encode ''Test Data'')
   \<and> map_sum id (\<lambda>c. (c_id c, c_name c, c_data c))
        (fst (from_data toy_libs ''password'' ''5'' cat_ciphertext (JStr cat_mac)
                (salt key0) flipped_iv world0))
       = Inr (5, JStr ''bat'', toy_utf8_encode ''Test Data'')"
  by code_simp

theorem flipped_iv_bit_loads_a_different_name_witness:
  "\<exists>c. fst (from_data toy_libs ''password'' ''5'' cat_ciphertext (JStr cat_mac)
                (salt key0) flipped_iv world0) = Inr c
        \<and> c_id c = 5 \<and> c_name c = JStr ''bat'' \<and> c_data c = toy_utf8_encode ''Test Data''"
proof -
  have "map_sum id (\<lambda>c. (c_id c, c_name c, c_data c))
        (fst (from_data toy_libs ''password'' ''5'' cat_ciphertext (JStr cat_mac)
                (salt key0) flipped_iv world0))
       = Inr (5, JStr ''bat'', toy_utf8_encode ''Test Data'')"
    using flipped_iv_bit_loads_a_different_name by blast
  then show ?thesis
    by (cases "fst (from_data toy_libs ''password'' ''5'' cat_ciphertext (JStr cat_mac)
                (salt key0) flipped_iv world0)") auto
qed

section \<open>Vault: encrypt\<close>

lemma dict_set_new: "k \<notin> fst ` set d \<Longrightarrow> dict_set k v d = d @ [(k, v)]"
  by (induction d) auto

lemma dict_union_distinct: "distinct (map fst (a @ b)) \<Longrightarrow> dict_union a b = a @ b"
  unfolding dict_union_def
proof (induction b arbitrary: a)
  case Nil
  show ?case by simp
next
  case (Cons x b)
  obtain k v where x: "x = (k, v)" by (cases x)
  have k: "k \<notin> fst ` set a" using Cons.prems x by auto
  have d: "distinct (map fst ((a @ [(k, v)]) @ b))" using Cons.prems x by auto
  show ?case
    using Cons.IH [OF d] by (simp add: x dict_set_new [OF k])
qed

lemma dict_of_distinct: "distinct (map fst kvs) \<Longrightarrow> dict_of kvs = kvs"
proof -
  assume "distinct (map fst kvs)"
  then have "dict_union [] kvs = [] @ kvs"
    by (intro dict_union_distinct) simp
  then show ?thesis
    unfolding dict_of_def dict_union_def by simp
qed

lemma py_str_inj: "int_ok L \<Longrightarrow> py_str a = py_str b \<Longrightarrow> a = b"
proof -
  assume L: "int_ok L" and e: "py_str a = py_str b"
  have a: "py_int L (py_str a) = Inr a" and b: "py_int L (py_str b) = Inr b"
    using L by (simp_all add: int_ok_def)
  have "(Inr a :: exc + int) = Inr b"
    unfolding a [symmetric] b [symmetric] e by (rule refl)
  then show ?thesis by (rule sum.inject(2) [THEN iffD1])
qed

lemma distinct_py_str: "int_ok L \<Longrightarrow> distinct ks \<Longrightarrow> distinct (map py_str ks)"
  by (rule iffD2 [OF distinct_map]) (auto intro!: inj_onI dest: py_str_inj)

lemma entries_of_keys: "map fst (entries_of L password cs) = map py_str (map fst cs)"
  by (induction cs) (auto simp add: entries_of_def)

lemma encrypt_items_ok:
  "list_all (\<lambda>(k, c). fst (encrypt L c password) = Inr (entry_of L password c)) cs \<Longrightarrow>
     fst (encrypt_items L password cs) = Inr (entries_of L password cs)"
proof (induction cs)
  case Nil
  show ?case by (simp add: entries_of_def)
next
  case (Cons x cs)
  obtain k c where x: "x = (k, c)" by (cases x)
  have e: "fst (encrypt L c password) = Inr (entry_of L password c)"
    using Cons.prems x by simp
  have r: "fst (encrypt_items L password cs) = Inr (entries_of L password cs)"
    using Cons.IH Cons.prems by simp
  obtain c' where c': "encrypt L c password = (Inr (entry_of L password c), c')"
    using e by (cases "encrypt L c password") simp
  obtain cs' where cs': "encrypt_items L password cs = (Inr (entries_of L password cs), cs')"
    using r by (cases "encrypt_items L password cs") simp
  show ?case
    by (simp add: x c' cs' entries_of_def)
qed

lemma encrypt_entry_of:
  assumes "libs_ok L" "container_ok L c"
  shows "fst (encrypt L c password) = Inr (entry_of L password c)"
proof -
  obtain ct mac where
      "fst (encrypt L c password)
         = Inr (entry_json (b64encode L ct) mac (get_key_json L (c_key c)))"
    using from_data_of_encrypt [OF assms, of password undefined] by blast
  then show ?thesis
    by (simp add: entry_of_def)
qed

lemma entry_of_shape:
  assumes "libs_ok L" "container_ok L c"
  shows "\<exists>ct mac. entry_of L password c
           = entry_json (b64encode L ct) mac
               (key_json (b64encode L (salt (c_key c))) (b64encode L (iv (c_key c))))
         \<and> length mac = 64
         \<and> (\<exists>c' w'. from_data L password (py_str (c_id c)) ct (JStr mac)
                        (salt (c_key c)) (iv (c_key c)) w = (Inr c', w')
                      \<and> c_id c' = c_id c \<and> c_name c' = c_name c \<and> c_data c' = c_data c
                      \<and> salt (c_key c') = salt (c_key c) \<and> iv (c_key c') = iv (c_key c)
                      \<and> key_ok L (c_key c')
                      \<and> w' = snd (Container_init L (Some (c_id c)) w))"
proof -
  have L: "aes_ok L" "kdf_ok L" "hmac_ok L"
    using assms(1) by (simp_all add: libs_ok_def)
  have c: "key_ok L (c_key c)" "length (iv (c_key c)) = BLOCK_SIZE" "decodes L (c_data c)"
    using assms(2) by (simp_all add: container_ok_def)
  obtain d where d: "utf8_decode L (c_data c) = Inr d"
    using c(3) by (auto simp add: decodes_def split: sum.splits)
  obtain ct0 where ct0:
      "encrypt L c password
         = (Inr (entry_json (b64encode L ct0)
                   (hmac_hexdigest L (derive L password (salt (c_key c)))
                      (utf8_encode L (py_str (c_id c)) @ ct0))
                   (get_key_json L (c_key c))),
            c\<lparr>c_key := snd (generate_aes_key L (c_key c) password)\<rparr>)"
    using encrypt_decodable [OF L(1,2) c(1,2) d, of password] by blast
  obtain ct mac c' w' where r:
      "fst (encrypt L c password)
         = Inr (entry_json (b64encode L ct) mac (get_key_json L (c_key c)))"
      "from_data L password (py_str (c_id c)) ct (JStr mac)
         (salt (c_key c)) (iv (c_key c)) w = (Inr c', w')"
      "c_id c' = c_id c" "c_name c' = c_name c" "c_data c' = c_data c"
      "salt (c_key c') = salt (c_key c)" "iv (c_key c') = iv (c_key c)"
      "key_ok L (c_key c')" "w' = snd (Container_init L (Some (c_id c)) w)"
    using from_data_of_encrypt [OF assms, of password w] by blast
  have m: "mac = hmac_hexdigest L (derive L password (salt (c_key c)))
                      (utf8_encode L (py_str (c_id c)) @ ct0)"
    using r(1) ct0 by (simp add: entry_json_def)
  have lm: "length mac = 64"
    unfolding m using L(3) by (simp add: hmac_ok_def)
  have "entry_of L password c
          = entry_json (b64encode L ct) mac
              (key_json (b64encode L (salt (c_key c))) (b64encode L (iv (c_key c))))"
    using r(1) by (simp add: entry_of_def get_key_json_def)
  then show ?thesis
    using lm r(2-9) by blast
qed


section \<open>Vault: the tag of the document\<close>

lemma insort_key_map_fst:
  assumes "\<And>y. fst (f y) = fst y"
  shows "insort_key fst (f x) (map f xs) = map f (insort_key fst x xs)"
  by (induction xs) (simp_all add: assms)

lemma sort_key_map_fst:
  assumes "\<And>y. fst (f y) = fst y"
  shows "sort_key fst (map f xs) = map f (sort_key fst xs)"
  by (induction xs) (simp_all add: insort_key_map_fst [OF assms])

lemma id_macs_sorted: "id_macs (sorted_items es) = sort_key fst (id_macs es)"
  unfolding id_macs_def sorted_items_def
  by (rule sort_key_map_fst [symmetric]) (simp add: case_prod_beta)

lemma join_JStr: "join (m # ms) = Inr j \<Longrightarrow> \<exists>s r. m = JStr s \<and> join ms = Inr r \<and> j = s @ r"
  by (cases m) (auto split: sum.splits)

lemma macs_of_join:
  "macs_of es = Inr ms \<Longrightarrow> join ms = Inr j \<Longrightarrow> j = concat (map snd (id_macs es))"
proof (induction es arbitrary: ms j)
  case Nil
  then show ?case by (simp add: id_macs_def)
next
  case (Cons x es)
  obtain k e where x: "x = (k, e)" by (cases x)
  obtain m ms' where m: "getitem e ''mac'' = Inr m" "macs_of es = Inr ms'" "ms = m # ms'"
    using Cons.prems(1) by (auto simp add: x split: sum.splits)
  obtain s r where s: "m = JStr s" "join ms' = Inr r" "j = s @ r"
    using Cons.prems(2) join_JStr unfolding m(3) by blast
  have "r = concat (map snd (id_macs es))"
    using m(2) s(2) by (rule Cons.IH)
  then show ?case
    by (simp add: x id_macs_def stored_mac_def m(1) s(1,3))
qed


lemma vault_mac_spec:
  assumes "vault_mac L k password es = (Inr m, k')"
  shows "m = spec_vault_mac L (fst (generate_aes_key L k password)) (id_macs es)"
    and "k' = snd (generate_aes_key L k password)"
proof -
  obtain ms where ms: "macs_of (sorted_items es) = Inr ms"
    using assms by (auto simp add: vault_mac_def split: sum.splits)
  obtain j where j: "join ms = Inr j"
    using assms ms by (auto simp add: vault_mac_def split: sum.splits prod.splits)
  have "j = concat (map snd (id_macs (sorted_items es)))"
    using ms j by (rule macs_of_join)
  then have j': "j = concat (map snd (sort_key fst (id_macs es)))"
    by (simp only: id_macs_sorted)
  show "m = spec_vault_mac L (fst (generate_aes_key L k password)) (id_macs es)"
    using assms by (simp add: vault_mac_def ms j j' spec_vault_mac_def split: prod.splits)
  show "k' = snd (generate_aes_key L k password)"
    using assms by (simp add: vault_mac_def ms j split: prod.splits)
qed

lemma has_macD: "has_mac e \<Longrightarrow> \<exists>m. getitem e ''mac'' = Inr (JStr m) \<and> length m = 64 \<and> stored_mac e = m"
  by (auto simp add: has_mac_def stored_mac_def split: sum.splits json.splits)

lemma macs_of_has_mac:
  "list_all (\<lambda>(k, e). has_mac e) es \<Longrightarrow>
     macs_of es = Inr (map (\<lambda>(k, m). JStr m) (id_macs es))"
proof (induction es)
  case Nil
  show ?case by (simp add: id_macs_def)
next
  case (Cons x es)
  obtain k e where x: "x = (k, e)" by (cases x)
  obtain m where m: "getitem e ''mac'' = Inr (JStr m)" "stored_mac e = m"
    using Cons.prems has_macD [of e] by (auto simp add: x)
  have "macs_of es = Inr (map (\<lambda>(k, m). JStr m) (id_macs es))"
    using Cons.prems by (intro Cons.IH) simp
  then show ?case
    using m by (simp add: x id_macs_def)
qed

lemma join_strs: "join (map (\<lambda>(k, m). JStr m) kms) = Inr (concat (map snd kms))"
  by (induction kms) auto

lemma has_mac_sorted:
  "list_all (\<lambda>(k, e). has_mac e) es \<Longrightarrow> list_all (\<lambda>(k, e). has_mac e) (sorted_items es)"
  by (simp add: sorted_items_def list_all_iff)

lemma vault_mac_has_mac:
  assumes "list_all (\<lambda>(k, e). has_mac e) es"
  shows "vault_mac L k password es
           = (Inr (spec_vault_mac L (fst (generate_aes_key L k password)) (id_macs es)),
              snd (generate_aes_key L k password))"
proof -
  have "macs_of (sorted_items es)
          = Inr (map (\<lambda>(k, m). JStr m) (id_macs (sorted_items es)))"
    using assms by (intro macs_of_has_mac has_mac_sorted)
  then show ?thesis
    by (simp add: vault_mac_def join_strs id_macs_sorted spec_vault_mac_def
          split: prod.splits)
qed



lemma py_str_2_10: "py_str 2 = ''2''" "py_str 10 = ''10''" "\<not> ''2'' \<le> ''10''"
  by code_simp+

lemma string_order_of_ids:
  "spec_vault_mac L k [(py_str 2, a), (py_str 10, b)]
     = hmac_hexdigest L k (utf8_encode L (b @ a))"
  unfolding py_str_2_10(1,2) spec_vault_mac_def
  using py_str_2_10(3) by simp


section \<open>Vault: the document of \<open>encrypt\<close>\<close>

lemma get_key_json_cached:
  "get_key_json L (snd (generate_aes_key L k password)) = get_key_json L k"
  by (simp add: get_key_json_def generate_aes_key_snd)

lemma Vault_encrypt_tag:
  assumes "fst (Vault_encrypt L v) = Inr d"
  shows "\<exists>entries.
           d = document_json entries (get_key_json L (v_key v))
                 (spec_vault_mac L (fst (generate_aes_key L (v_key v) (v_master_password v)))
                    (id_macs entries))"
proof -
  obtain r all' where ei:
      "encrypt_items L (v_master_password v)
         (dict_union (v_containers v) (v_hidden_containers v)) = (r, all')"
    by (cases "encrypt_items L (v_master_password v)
                 (dict_union (v_containers v) (v_hidden_containers v))")
  obtain entries where r: "r = Inr entries"
    using assms ei by (cases r) (simp_all add: Vault_encrypt_def)
  obtain x k' where vm:
      "vault_mac L (v_key v) (v_master_password v) (dict_of entries) = (x, k')"
    by (cases "vault_mac L (v_key v) (v_master_password v) (dict_of entries)")
  obtain mac where x: "x = Inr mac"
    using assms ei r vm by (cases x) (simp_all add: Vault_encrypt_def)
  have d: "d = document_json (dict_of entries) (get_key_json L k') mac"
    using assms ei r vm x by (simp add: Vault_encrypt_def)
  have "mac = spec_vault_mac L (fst (generate_aes_key L (v_key v) (v_master_password v)))
                (id_macs (dict_of entries))"
    and "k' = snd (generate_aes_key L (v_key v) (v_master_password v))"
    using vm unfolding x by (rule vault_mac_spec)+
  then show ?thesis
    using d by (auto simp add: get_key_json_cached)
qed

lemma has_mac_entry_json: "length m = 64 \<Longrightarrow> has_mac (entry_json ct m k)"
  by (simp add: has_mac_def entry_json_def)

lemma vault_ok_all:
  assumes "vault_ok L v"
  shows "list_all (\<lambda>(k, c). c_id c = k \<and> container_ok L c)
           (v_containers v @ v_hidden_containers v)"
    and "distinct (map fst (v_containers v @ v_hidden_containers v))"
    and "filter (\<lambda>(k, c). 0 \<le> k) (v_containers v @ v_hidden_containers v) = v_containers v"
    and "filter (\<lambda>(k, c). k < 0) (v_containers v @ v_hidden_containers v)
           = v_hidden_containers v"
proof -
  have c: "list_all (\<lambda>(k, c). c_id c = k \<and> 0 \<le> k \<and> container_ok L c) (v_containers v)"
    and h: "list_all (\<lambda>(k, c). c_id c = k \<and> k < 0 \<and> container_ok L c)
              (v_hidden_containers v)"
    using assms by (simp_all add: vault_ok_def)
  show "list_all (\<lambda>(k, c). c_id c = k \<and> container_ok L c)
          (v_containers v @ v_hidden_containers v)"
    using c h by (auto simp add: list_all_iff)
  show "distinct (map fst (v_containers v @ v_hidden_containers v))"
    using assms by (simp add: vault_ok_def)
  have "filter (\<lambda>(k, c). 0 \<le> k) (v_containers v) = v_containers v"
    using c by (auto simp add: list_all_iff intro!: filter_True)
  moreover have "filter (\<lambda>(k, c). 0 \<le> k) (v_hidden_containers v) = []"
    using h by (auto simp add: list_all_iff filter_empty_conv)
  ultimately show "filter (\<lambda>(k, c). 0 \<le> k) (v_containers v @ v_hidden_containers v)
                     = v_containers v"
    by simp
  have "filter (\<lambda>(k, c). k < 0) (v_hidden_containers v) = v_hidden_containers v"
    using h by (auto simp add: list_all_iff intro!: filter_True)
  moreover have "filter (\<lambda>(k, c). k < 0) (v_containers v) = []"
    using c by (auto simp add: list_all_iff filter_empty_conv)
  ultimately show "filter (\<lambda>(k, c). k < 0) (v_containers v @ v_hidden_containers v)
                     = v_hidden_containers v"
    by simp
qed

lemma entries_of_has_mac:
  assumes "libs_ok L" "list_all (\<lambda>(k, c). c_id c = k \<and> container_ok L c) cs"
  shows "list_all (\<lambda>(k, e). has_mac e) (entries_of L password cs)"
proof -
  have "has_mac (entry_of L password c)" if "container_ok L c" for c
    using entry_of_shape [OF assms(1) that, of password undefined]
    by (auto simp add: has_mac_entry_json)
  then have "list_all (\<lambda>(k, c). has_mac (entry_of L password c)) cs"
    using assms(2) by (intro list.pred_mono_strong [OF assms(2)]) auto
  then show ?thesis
    by (simp add: entries_of_def list_all_iff case_prod_beta)
qed

lemma entries_of_rows:
  assumes "libs_ok L" "list_all (\<lambda>(k, c). c_id c = k \<and> container_ok L c) cs"
  shows "\<exists>rows. entries_of L password cs = map entry_row rows
                \<and> map fst rows = map py_str (map fst cs)"
  using assms(2)
proof (induction cs)
  case Nil
  show ?case by (simp add: entries_of_def)
next
  case (Cons x cs)
  obtain k c where x: "x = (k, c)" by (cases x)
  have c: "container_ok L c" using Cons.prems x by simp
  obtain rows where rows: "entries_of L password cs = map entry_row rows"
      "map fst rows = map py_str (map fst cs)"
    using Cons.IH Cons.prems by auto
  obtain ct mac where e:
      "entry_of L password c
         = entry_json (b64encode L ct) mac
             (key_json (b64encode L (salt (c_key c))) (b64encode L (iv (c_key c))))"
    using entry_of_shape [OF assms(1) c, of password undefined] by blast
  have "entries_of L password (x # cs)
          = map entry_row ((py_str k, b64encode L ct, mac, b64encode L (salt (c_key c)),
                            b64encode L (iv (c_key c))) # rows)"
    using rows(1) e by (simp add: x entries_of_def entry_row_def)
  moreover have "map fst ((py_str k, b64encode L ct, mac, b64encode L (salt (c_key c)),
                            b64encode L (iv (c_key c))) # rows)
                   = map py_str (map fst (x # cs))"
    using rows(2) by (simp add: x)
  ultimately show ?case by blast
qed

lemma Vault_encrypt_ok:
  assumes "libs_ok L" "vault_ok L v"
  shows "fst (Vault_encrypt L v)
           = Inr (document_json
                    (entries_of L (v_master_password v) (v_containers v @ v_hidden_containers v))
                    (get_key_json L (v_key v))
                    (spec_vault_mac L (derive L (v_master_password v) (salt (v_key v)))
                       (id_macs (entries_of L (v_master_password v)
                                   (v_containers v @ v_hidden_containers v)))))"
proof -
  let ?pw = "v_master_password v"
  let ?all = "v_containers v @ v_hidden_containers v"
  have io: "int_ok L" using assms(1) by (simp add: libs_ok_def)
  have all: "list_all (\<lambda>(k, c). c_id c = k \<and> container_ok L c) ?all"
    and dist: "distinct (map fst ?all)"
    using vault_ok_all [OF assms(2)] by simp_all
  have u: "dict_union (v_containers v) (v_hidden_containers v) = ?all"
    using dist by (rule dict_union_distinct)
  have e: "fst (encrypt L c ?pw) = Inr (entry_of L ?pw c)" if "container_ok L c" for c
    using assms(1) that by (rule encrypt_entry_of)
  have "list_all (\<lambda>(k, c). fst (encrypt L c ?pw) = Inr (entry_of L ?pw c)) ?all"
    using all by (rule list.pred_mono_strong) (auto simp add: e)
  then have "fst (encrypt_items L ?pw ?all) = Inr (entries_of L ?pw ?all)"
    by (rule encrypt_items_ok)
  then obtain all' where ei: "encrypt_items L ?pw ?all = (Inr (entries_of L ?pw ?all), all')"
    by (cases "encrypt_items L ?pw ?all") simp
  have "distinct (map fst (entries_of L ?pw ?all))"
    unfolding entries_of_keys using io dist by (intro distinct_py_str) simp_all
  then have d: "dict_of (entries_of L ?pw ?all) = entries_of L ?pw ?all"
    by (rule dict_of_distinct)
  have hm: "list_all (\<lambda>(k, e). has_mac e) (entries_of L ?pw ?all)"
    using assms(1) all by (rule entries_of_has_mac)
  have k: "fst (generate_aes_key L (v_key v) ?pw) = derive L ?pw (salt (v_key v))"
    using assms(2) by (intro generate_aes_key_fst) (simp add: vault_ok_def)
  show ?thesis
    by (simp add: Vault_encrypt_def Let_def u ei d vault_mac_has_mac [OF hm] k
          get_key_json_cached)
qed


section \<open>Vault: loading a document\<close>

lemma from_entry_has_mac:
  assumes "hmac_ok L" "from_entry L password i e w = (Inr c, w')"
  shows "has_mac e"
proof -
  obtain ct64 where a: "getitem e ''ciphertext'' = Inr ct64"
    using assms(2) by (cases "getitem e ''ciphertext''") (simp_all add: from_entry_def)
  obtain ct where b: "b64decode_value L ct64 = Inr ct"
    using assms(2) a by (cases "b64decode_value L ct64") (simp_all add: from_entry_def)
  obtain mac where m: "getitem e ''mac'' = Inr mac"
    using assms(2) a b by (cases "getitem e ''mac''") (simp_all add: from_entry_def)
  obtain s where s: "key_field L e ''salt'' = Inr s"
    using assms(2) a b m by (cases "key_field L e ''salt''") (simp_all add: from_entry_def)
  obtain v where v: "key_field L e ''iv'' = Inr v"
    using assms(2) a b m s by (cases "key_field L e ''iv''") (simp_all add: from_entry_def)
  have f: "from_data L password i ct mac s v w = (Inr c, w')"
    using assms(2) by (simp add: from_entry_def a b m s v)
  have l: "length s = SALT_SIZE" "length v = BLOCK_SIZE"
    using f from_data_malformed [of s v L password i ct mac w] by auto
  obtain n where n: "py_int L i = Inr n"
    using f from_data_bad_id [OF l, of L i _ password ct mac w] by (cases "py_int L i") auto
  have "compare_digest (hmac_hexdigest L (derive L password s) (utf8_encode L i @ ct)) mac
          = Inr True"
    using f unfolding from_data_checked [OF l n]
    by (auto split: sum.splits if_splits)
  then have "mac = JStr (hmac_hexdigest L (derive L password s) (utf8_encode L i @ ct))"
    by (cases mac) (auto split: if_splits)
  then show ?thesis
    using assms(1) m by (simp add: has_mac_def hmac_ok_def)
qed

lemma load_entries_has_mac:
  assumes "hmac_ok L"
  shows "load_entries L password es w = (Inr cs, w') \<Longrightarrow> list_all (\<lambda>(k, e). has_mac e) es"
proof (induction es arbitrary: w cs w')
  case Nil
  show ?case by simp
next
  case (Cons x es)
  obtain i e where x: "x = (i, e)" by (cases x)
  obtain c w1 where c: "from_entry L password i e w = (Inr c, w1)"
    using Cons.prems by (auto simp add: x split: prod.splits sum.splits)
  obtain cs' where r: "load_entries L password es w1 = (Inr cs', w')"
    using Cons.prems c by (auto simp add: x split: prod.splits sum.splits)
  have "has_mac e"
    using assms c by (rule from_entry_has_mac)
  moreover have "list_all (\<lambda>(k, e). has_mac e) es"
    using r by (rule Cons.IH)
  ultimately show ?case
    by (simp add: x)
qed

lemma from_entry_entry_of:
  assumes "libs_ok L" "container_ok L c"
  shows "\<exists>c' w'. from_entry L password (py_str (c_id c)) (entry_of L password c) w = (Inr c', w')
                 \<and> c_id c' = c_id c \<and> container_eq c c'"
proof -
  have b: "b64_ok L" using assms(1) by (simp add: libs_ok_def)
  obtain ct mac c' w' where r:
      "entry_of L password c
         = entry_json (b64encode L ct) mac
             (key_json (b64encode L (salt (c_key c))) (b64encode L (iv (c_key c))))"
      "from_data L password (py_str (c_id c)) ct (JStr mac)
         (salt (c_key c)) (iv (c_key c)) w = (Inr c', w')"
      "c_id c' = c_id c" "c_name c' = c_name c" "c_data c' = c_data c"
    using entry_of_shape [OF assms, of password w] by blast
  have "from_entry L password (py_str (c_id c)) (entry_of L password c) w = (Inr c', w')"
    unfolding r(1) from_entry_entry_json [OF b] by (rule r(2))
  then show ?thesis
    using r(3,4,5) by (auto simp add: container_eq_def)
qed

lemma load_entries_entries_of:
  assumes "libs_ok L"
  shows "list_all (\<lambda>(k, c). c_id c = k \<and> container_ok L c) cs \<Longrightarrow>
           \<exists>xs w'. load_entries L password (entries_of L password cs) w = (Inr xs, w')
                  \<and> list_all2 (\<lambda>(k, c) x. c_id x = k \<and> container_eq c x) cs xs"
proof (induction cs arbitrary: w)
  case Nil
  show ?case by (simp add: entries_of_def)
next
  case (Cons x cs)
  obtain k c where x: "x = (k, c)" by (cases x)
  have c: "c_id c = k" "container_ok L c"
    using Cons.prems by (simp_all add: x)
  obtain c' w1 where f:
      "from_entry L password (py_str (c_id c)) (entry_of L password c) w = (Inr c', w1)"
      "c_id c' = c_id c" "container_eq c c'"
    using from_entry_entry_of [OF assms c(2), of password w] by blast
  have "list_all (\<lambda>(k, c). c_id c = k \<and> container_ok L c) cs"
    using Cons.prems by simp
  then obtain xs w' where r:
      "load_entries L password (entries_of L password cs) w1 = (Inr xs, w')"
      "list_all2 (\<lambda>(k, c) x. c_id x = k \<and> container_eq c x) cs xs"
    using Cons.IH [of w1] by blast
  have "load_entries L password (entries_of L password (x # cs)) w = (Inr (c' # xs), w')"
    using f(1) r(1) c(1) by (simp add: x entries_of_def)
  moreover have "list_all2 (\<lambda>(k, c) x. c_id x = k \<and> container_eq c x) (x # cs) (c' # xs)"
    using r(2) f(2,3) c(1) by (simp add: x)
  ultimately show ?case by blast
qed



text \<open>
  What \<open>load_from_file\<close> does once every entry of the document has loaded: the tag is
  recomputed from the stored tags and compared with the stored vault tag.
\<close>

lemma load_body_compares:
  assumes "hmac_ok L"
    and "getitem d ''containers'' = Inr (JDict entries)"
    and "load_entries L (v_master_password v) entries w = (Inr cs, w1)"
    and "getitem d ''mac'' = Inr mac"
    and "key_field L d ''salt'' = Inr s" "key_field L d ''iv'' = Inr i"
    and "length s = SALT_SIZE" "length i = BLOCK_SIZE"
  shows "load_body L v d w
           = (case compare_digest
                     (spec_vault_mac L (derive L (v_master_password v) s) (id_macs entries)) mac of
                Inl e \<Rightarrow> (Inl (Raised e), w1)
              | Inr ok \<Rightarrow>
                  if ok
                  then (Inr (v\<lparr>v_hidden_containers :=
                                  filter (\<lambda>(i, c). i < 0) (dict_of (map (\<lambda>c. (get_id c, c)) cs)),
                               v_containers :=
                                  filter (\<lambda>(i, c). 0 \<le> i) (dict_of (map (\<lambda>c. (get_id c, c)) cs)),
                               v_key := \<lparr>salt = s, iv = i,
                                          aeskey = Some (derive L (v_master_password v) s),
                                          prev_password = Some (v_master_password v)\<rparr>\<rparr>), w1)
                  else (Inl (LoadVaultError invalid_vault_mac_msg), w1))"
proof -
  have ne: "s \<noteq> []" "i \<noteq> []"
    using assms(7,8) by (auto simp add: SALT_SIZE_def BLOCK_SIZE_def)
  have hm: "list_all (\<lambda>(k, e). has_mac e) entries"
    using assms(1,3) by (rule load_entries_has_mac)
  have vm: "vault_mac L \<lparr>salt = s, iv = i, aeskey = None, prev_password = None\<rparr>
              (v_master_password v) entries
            = (Inr (spec_vault_mac L (derive L (v_master_password v) s) (id_macs entries)),
               \<lparr>salt = s, iv = i, aeskey = Some (derive L (v_master_password v) s),
                 prev_password = Some (v_master_password v)\<rparr>)"
    unfolding vault_mac_has_mac [OF hm] generate_aes_key_fresh by simp
  show ?thesis
    unfolding load_body_def
    by (simp add: assms(2-8) SymmetricKey_init_given [OF ne] vm Let_def split: sum.splits)
qed

lemma load_from_file_compares:
  assumes "hmac_ok L"
    and "read_document L path w = Inr d"
    and "getitem d ''containers'' = Inr (JDict entries)"
    and "load_entries L (v_master_password v) entries w = (Inr cs, w1)"
    and "getitem d ''mac'' = Inr mac"
    and "key_field L d ''salt'' = Inr s" "key_field L d ''iv'' = Inr i"
    and "length s = SALT_SIZE" "length i = BLOCK_SIZE"
  shows "fst (load_from_file L v path w)
           = (case compare_digest
                     (spec_vault_mac L (derive L (v_master_password v) s) (id_macs entries)) mac of
                Inl e \<Rightarrow> Inl (LoadVaultError load_failed_msg)
              | Inr ok \<Rightarrow>
                  if ok
                  then Inr (v\<lparr>v_hidden_containers :=
                                  filter (\<lambda>(i, c). i < 0) (dict_of (map (\<lambda>c. (get_id c, c)) cs)),
                               v_containers :=
                                  filter (\<lambda>(i, c). 0 \<le> i) (dict_of (map (\<lambda>c. (get_id c, c)) cs)),
                               v_key := \<lparr>salt = s, iv = i,
                                          aeskey = Some (derive L (v_master_password v) s),
                                          prev_password = Some (v_master_password v)\<rparr>\<rparr>)
                  else Inl (LoadVaultError invalid_vault_mac_msg))"
proof (cases "compare_digest
                (spec_vault_mac L (derive L (v_master_password v) s) (id_macs entries)) mac")
  case (Inl e)
  then show ?thesis
    by (simp add: load_from_file_def assms(2) load_body_compares [OF assms(1,3-9)])
next
  case (Inr ok)
  then show ?thesis
    by (simp add: load_from_file_def assms(2) load_body_compares [OF assms(1,3-9)])
qed



section \<open>Vault: saving and loading again\<close>

lemma document_of_ok:
  assumes "libs_ok L" "vault_ok L v"
  shows "fst (Vault_encrypt L v) = Inr (document_of L v)"
    and "document_of L v
           = document_json
               (entries_of L (v_master_password v) (v_containers v @ v_hidden_containers v))
               (get_key_json L (v_key v))
               (spec_vault_mac L (derive L (v_master_password v) (salt (v_key v)))
                  (id_macs (entries_of L (v_master_password v)
                              (v_containers v @ v_hidden_containers v))))"
  using Vault_encrypt_ok [OF assms] by (simp_all add: document_of_def)

lemma save_to_file_ok:
  assumes "libs_ok L" "vault_ok L v"
  shows "fst (save_to_file L v path w) = Inr ()"
    and "snd (snd (save_to_file L v path w))
           = w\<lparr>files := (files w)(path \<mapsto> json_dumps L (Some 4) (document_of L v))\<rparr>"
    and "read_document L path (snd (snd (save_to_file L v path w))) = Inr (document_of L v)"
proof -
  obtain v' where e: "Vault_encrypt L v = (Inr (document_of L v), v')"
    using document_of_ok(1) [OF assms] by (cases "Vault_encrypt L v") simp
  show 1: "fst (save_to_file L v path w) = Inr ()"
    by (simp add: save_to_file_def e)
  show 2: "snd (snd (save_to_file L v path w))
           = w\<lparr>files := (files w)(path \<mapsto> json_dumps L (Some 4) (document_of L v))\<rparr>"
    by (simp add: save_to_file_def e)
  have j: "json_ok L" "int_ok L"
    using assms(1) by (simp_all add: libs_ok_def)
  have all: "list_all (\<lambda>(k, c). c_id c = k \<and> container_ok L c)
               (v_containers v @ v_hidden_containers v)"
    and dist: "distinct (map fst (v_containers v @ v_hidden_containers v))"
    using vault_ok_all [OF assms(2)] by simp_all
  obtain rows where rows:
      "entries_of L (v_master_password v) (v_containers v @ v_hidden_containers v)
         = map entry_row rows"
      "map fst rows = map py_str (map fst (v_containers v @ v_hidden_containers v))"
    using entries_of_rows [OF assms(1) all, of "v_master_password v"] by blast
  have dr: "distinct (map fst rows)"
    unfolding rows(2) using j(2) dist by (rule distinct_py_str)
  have "json_loads L (json_dumps L (Some 4) (document_of L v)) = Inr (document_of L v)"
    unfolding document_of_ok(2) [OF assms] rows(1) get_key_json_def
    using j(1) dr by (rule json_ok_document)
  then show "read_document L path (snd (snd (save_to_file L v path w))) = Inr (document_of L v)"
    unfolding 2 by (simp add: read_document_def)
qed



section \<open>The vault tag\<close>

lemma fresh_key_ok:
  assumes "random_ok L"
  shows "key_ok L (fresh_key L n)" "length (salt (fresh_key L n)) = SALT_SIZE"
    "length (iv (fresh_key L n)) = BLOCK_SIZE"
  using assms by (simp_all add: fresh_key_def key_ok_def random_ok_def)

lemma test_vault_ok: "vault_ok toy_libs test_vault"
proof -
  have d: "decodes toy_libs []"
    by (simp add: decodes_def toy_libs_def)
  have c: "container_ok toy_libs credential_container" "container_ok toy_libs token_container"
    by (simp_all add: container_ok_def credential_container_def token_container_def
          fresh_key_ok [OF toy_random_ok] is_str_def d)
  have i: "c_id test_container = 5" "c_id credential_container = - 1"
      "c_id token_container = - 2"
    by (simp_all add: test_container_def credential_container_def token_container_def)
  show ?thesis
    by (simp add: vault_ok_def test_vault_def fresh_key_ok [OF toy_random_ok] test_container_ok
          c i)
qed

lemma unsigned_read:
  "read_document toy_libs ''vault.json'' unsigned_world = Inr unsigned_document"
proof -
  have "json_loads toy_libs (json_dumps toy_libs (Some 4) unsigned_document)
          = Inr unsigned_document"
    unfolding unsigned_document_def
    by (rule json_ok_document [OF toy_json_ok]) simp
  then show ?thesis
    by (simp add: read_document_def unsigned_world_def)
qed

lemma unsigned_fields:
  "getitem unsigned_document ''containers''
     = Inr (JDict [(''5'', entry_json (b64encode toy_libs cat_ciphertext) cat_mac
                            (key_json (b64encode toy_libs (salt key0))
                               (b64encode toy_libs (iv key0))))])"
  "getitem unsigned_document ''mac'' = Inr (JStr ''invalid'')"
  "key_field toy_libs unsigned_document ''salt'' = Inr (salt key0)"
  "key_field toy_libs unsigned_document ''iv'' = Inr (iv key0)"
proof -
  show "getitem unsigned_document ''containers''
     = Inr (JDict [(''5'', entry_json (b64encode toy_libs cat_ciphertext) cat_mac
                            (key_json (b64encode toy_libs (salt key0))
                               (b64encode toy_libs (iv key0))))])"
    "getitem unsigned_document ''mac'' = Inr (JStr ''invalid'')"
    by (simp_all add: unsigned_document_def document_json_def entry_row_def)
  have b: "b64decode toy_libs (b64encode toy_libs x) = Inr x" for x
    using toy_b64_ok by (simp add: b64_ok_def)
  show "key_field toy_libs unsigned_document ''salt'' = Inr (salt key0)"
    "key_field toy_libs unsigned_document ''iv'' = Inr (iv key0)"
    unfolding unsigned_document_def key_field_key_json by (rule b)+
qed

lemma unsigned_entries:
  "\<exists>c w1. load_entries toy_libs ''password''
             [(''5'', entry_json (b64encode toy_libs cat_ciphertext) cat_mac
                        (key_json (b64encode toy_libs (salt key0))
                           (b64encode toy_libs (iv key0))))] w
           = (Inr [c], w1)"
proof -
  obtain c' w' where x:
      "from_data toy_libs ''password'' ''5'' cat_ciphertext (JStr cat_mac)
         (salt key0) (iv key0) w = (Inr c', w')"
    using cat_loads [of w] by blast
  have "from_entry toy_libs ''password'' ''5''
               (entry_json (b64encode toy_libs cat_ciphertext) cat_mac
                  (key_json (b64encode toy_libs (salt key0)) (b64encode toy_libs (iv key0))))
               w = (Inr c', w')"
    unfolding from_entry_entry_json [OF toy_b64_ok] by (rule x)
  then show ?thesis
    by simp
qed

text \<open>
  C5. The vault tag in the words of the specification is \<open>spec_vault_mac\<close>: HMAC-SHA256
  under the vault key over the concatenation of the per-container tags, in the order of
  the ids sorted as strings (so that the tag of container 10 comes before that of
  container 2). Every document that \<open>Vault.encrypt\<close> returns carries that tag of its own
  \<open>containers\<close> dictionary under the key that \<open>generate_aes_key\<close> gives for the vault, and
  for a well-formed vault \<open>encrypt\<close> does return the document of its containers' entries
  with that tag under the key derived from the master password and the vault's salt.
  \<open>load_from_file\<close>, once every entry has loaded, computes the same tag from the \<open>mac\<close>
  values stored in the document, under the key derived from the master password and the
  document's vault salt, and hands it to \<open>compare_digest\<close> with the stored vault tag: it
  returns when they are equal, raises the vault integrity error when they differ, and
  the generic load error when the stored tag is not an ASCII \<open>str\<close>.
\<close>

theorem vault_tag_is_the_tag_of_the_specification:
  "(\<forall>d. fst (Vault_encrypt L v) = Inr d \<longrightarrow>
      (\<exists>entries.
         d = document_json entries (get_key_json L (v_key v))
               (spec_vault_mac L (fst (generate_aes_key L (v_key v) (v_master_password v)))
                  (id_macs entries))))
   \<and> (libs_ok L \<longrightarrow> vault_ok L v \<longrightarrow>
        fst (Vault_encrypt L v)
          = Inr (document_json
                   (entries_of L (v_master_password v) (v_containers v @ v_hidden_containers v))
                   (get_key_json L (v_key v))
                   (spec_vault_mac L (derive L (v_master_password v) (salt (v_key v)))
                      (id_macs (entries_of L (v_master_password v)
                                  (v_containers v @ v_hidden_containers v))))))
   \<and> (\<forall>d entries cs w1 mac s i.
        hmac_ok L \<longrightarrow> read_document L path w = Inr d \<longrightarrow>
        getitem d ''containers'' = Inr (JDict entries) \<longrightarrow>
        load_entries L (v_master_password v) entries w = (Inr cs, w1) \<longrightarrow>
        getitem d ''mac'' = Inr mac \<longrightarrow>
        key_field L d ''salt'' = Inr s \<longrightarrow> key_field L d ''iv'' = Inr i \<longrightarrow>
        length s = SALT_SIZE \<longrightarrow> length i = BLOCK_SIZE \<longrightarrow>
        (case compare_digest
                (spec_vault_mac L (derive L (v_master_password v) s) (id_macs entries)) mac of
           Inl e \<Rightarrow> fst (load_from_file L v path w) = Inl (LoadVaultError load_failed_msg)
         | Inr ok \<Rightarrow>
             if ok then \<not> isl (fst (load_from_file L v path w))
             else fst (load_from_file L v path w)
                    = Inl (LoadVaultError invalid_vault_mac_msg)))
   \<and> spec_vault_mac L k [(py_str 2, a), (py_str 10, b)]
       = hmac_hexdigest L k (utf8_encode L (b @ a))"
proof (intro conjI allI impI)
  fix d
  assume "fst (Vault_encrypt L v) = Inr d"
  then show "\<exists>entries.
         d = document_json entries (get_key_json L (v_key v))
               (spec_vault_mac L (fst (generate_aes_key L (v_key v) (v_master_password v)))
                  (id_macs entries))"
    by (rule Vault_encrypt_tag)
next
  assume "libs_ok L" "vault_ok L v"
  then show "fst (Vault_encrypt L v)
          = Inr (document_json
                   (entries_of L (v_master_password v) (v_containers v @ v_hidden_containers v))
                   (get_key_json L (v_key v))
                   (spec_vault_mac L (derive L (v_master_password v) (salt (v_key v)))
                      (id_macs (entries_of L (v_master_password v)
                                  (v_containers v @ v_hidden_containers v)))))"
    by (rule Vault_encrypt_ok)
next
  fix d entries cs w1 mac s i
  assume h: "hmac_ok L" "read_document L path w = Inr d"
    "getitem d ''containers'' = Inr (JDict entries)"
    "load_entries L (v_master_password v) entries w = (Inr cs, w1)"
    "getitem d ''mac'' = Inr mac"
    "key_field L d ''salt'' = Inr s" "key_field L d ''iv'' = Inr i"
    "length s = SALT_SIZE" "length i = BLOCK_SIZE"
  show "case compare_digest
                (spec_vault_mac L (derive L (v_master_password v) s) (id_macs entries)) mac of
           Inl e \<Rightarrow> fst (load_from_file L v path w) = Inl (LoadVaultError load_failed_msg)
         | Inr ok \<Rightarrow>
             if ok then \<not> isl (fst (load_from_file L v path w))
             else fst (load_from_file L v path w)
                    = Inl (LoadVaultError invalid_vault_mac_msg)"
    unfolding load_from_file_compares [OF h]
    by (simp split: sum.splits)
next
  show "spec_vault_mac L k [(py_str 2, a), (py_str 10, b)]
       = hmac_hexdigest L k (utf8_encode L (b @ a))"
    by (rule string_order_of_ids)
qed

theorem vault_tag_is_the_tag_of_the_specification_witness:
  "vault_ok toy_libs test_vault
   \<and> fst (Vault_encrypt toy_libs test_vault)
       = Inr (document_json
                (entries_of toy_libs ''password''
                   [(5, test_container), (- 1, credential_container), (- 2, token_container)])
                (get_key_json toy_libs (fresh_key toy_libs 2))
                (spec_vault_mac toy_libs
                   (derive toy_libs ''password'' (salt (fresh_key toy_libs 2)))
                   (id_macs (entries_of toy_libs ''password''
                      [(5, test_container), (- 1, credential_container),
                       (- 2, token_container)]))))
   \<and> read_document toy_libs ''vault.json'' saved_world = Inr (document_of toy_libs test_vault)
   \<and> \<not> isl (fst (load_from_file toy_libs test_vault ''vault.json'' saved_world))
   \<and> read_document toy_libs ''vault.json'' unsigned_world = Inr unsigned_document
   \<and> fst (load_from_file toy_libs test_vault ''vault.json'' unsigned_world)
       = Inl (LoadVaultError invalid_vault_mac_msg)"
proof -
  note T = vault_tag_is_the_tag_of_the_specification
  let ?E = "entries_of toy_libs ''password''
              [(5, test_container), (- 1, credential_container), (- 2, token_container)]"
  let ?M = "spec_vault_mac toy_libs (derive toy_libs ''password'' (salt (fresh_key toy_libs 2)))
              (id_macs ?E)"
  have f: "v_master_password test_vault = ''password''" "v_key test_vault = fresh_key toy_libs 2"
      "v_containers test_vault @ v_hidden_containers test_vault
         = [(5, test_container), (- 1, credential_container), (- 2, token_container)]"
    by (simp_all add: test_vault_def)
  have e: "fst (Vault_encrypt toy_libs test_vault)
             = Inr (document_json ?E (get_key_json toy_libs (fresh_key toy_libs 2)) ?M)"
    using T [where L = toy_libs and v = test_vault, THEN conjunct2, THEN conjunct1, rule_format,
        OF toy_libs_ok test_vault_ok]
    unfolding f .
  have d: "document_of toy_libs test_vault
             = document_json ?E (get_key_json toy_libs (fresh_key toy_libs 2)) ?M"
    using e by (simp add: document_of_def)
  have r: "read_document toy_libs ''vault.json'' saved_world
             = Inr (document_of toy_libs test_vault)"
    unfolding saved_world_def by (rule save_to_file_ok(3) [OF toy_libs_ok test_vault_ok])
  have g: "getitem (document_of toy_libs test_vault) ''containers'' = Inr (JDict ?E)"
      "getitem (document_of toy_libs test_vault) ''mac'' = Inr (JStr ?M)"
    unfolding d by (simp_all add: document_json_def)
  have b: "b64decode toy_libs (b64encode toy_libs x) = Inr x" for x
    using toy_b64_ok by (simp add: b64_ok_def)
  have s: "key_field toy_libs (document_of toy_libs test_vault) ''salt''
             = Inr (salt (fresh_key toy_libs 2))"
      "key_field toy_libs (document_of toy_libs test_vault) ''iv''
             = Inr (iv (fresh_key toy_libs 2))"
    unfolding d get_key_json_def key_field_key_json by (rule b)+
  have all: "list_all (\<lambda>(k, c). c_id c = k \<and> container_ok toy_libs c)
               [(5, test_container), (- 1, credential_container), (- 2, token_container)]"
    using vault_ok_all(1) [OF test_vault_ok] unfolding f .
  obtain xs w1 where x:
      "load_entries toy_libs (v_master_password test_vault) ?E saved_world = (Inr xs, w1)"
    using load_entries_entries_of [OF toy_libs_ok all, of "''password''" saved_world]
    unfolding f by blast
  have a: "ascii ?M"
    unfolding spec_vault_mac_def using toy_hmac_ok by (simp add: hmac_ok_def)
  have c: "compare_digest
             (spec_vault_mac toy_libs
                (derive toy_libs (v_master_password test_vault) (salt (fresh_key toy_libs 2)))
                (id_macs ?E))
             (JStr ?M) = Inr True"
    unfolding f using a by (rule ascii_compare_digest)
  have ok: "\<not> isl (fst (load_from_file toy_libs test_vault ''vault.json'' saved_world))"
    using T [where L = toy_libs and v = test_vault and path = "''vault.json''" and w = saved_world,
        THEN conjunct2, THEN conjunct2, THEN conjunct1, rule_format,
        OF toy_hmac_ok r g(1) x g(2) s fresh_key_ok(2,3) [OF toy_random_ok]]
    unfolding c by simp
  obtain c' w2 where y:
      "load_entries toy_libs (v_master_password test_vault)
         [(''5'', entry_json (b64encode toy_libs cat_ciphertext) cat_mac
                    (key_json (b64encode toy_libs (salt key0))
                       (b64encode toy_libs (iv key0))))] unsigned_world
       = (Inr [c'], w2)"
    using unsigned_entries [of unsigned_world] unfolding f by blast
  have l: "length (salt key0) = SALT_SIZE" "length (iv key0) = BLOCK_SIZE"
    by (simp_all add: key0_lengths SALT_SIZE_def BLOCK_SIZE_def)
  let ?T = "spec_vault_mac toy_libs
              (derive toy_libs (v_master_password test_vault) (salt key0))
              (id_macs [(''5'', entry_json (b64encode toy_libs cat_ciphertext) cat_mac
                                  (key_json (b64encode toy_libs (salt key0))
                                     (b64encode toy_libs (iv key0))))])"
  have t: "ascii ?T" "length ?T = 64"
    unfolding spec_vault_mac_def using toy_hmac_ok by (simp_all add: hmac_ok_def)
  have "?T \<noteq> ''invalid''"
    using t(2) by auto
  then have n: "compare_digest ?T (JStr ''invalid'') = Inr False"
    using t(1) by (simp add: ascii_def)
  have bad: "fst (load_from_file toy_libs test_vault ''vault.json'' unsigned_world)
               = Inl (LoadVaultError invalid_vault_mac_msg)"
    using T [where L = toy_libs and v = test_vault and path = "''vault.json''"
          and w = unsigned_world,
        THEN conjunct2, THEN conjunct2, THEN conjunct1, rule_format,
        OF toy_hmac_ok unsigned_read unsigned_fields(1) y unsigned_fields(2,3,4) l]
    unfolding n by simp
  show ?thesis
    using test_vault_ok e r ok unsigned_read bad by simp
qed


section \<open>Entries added or removed behind the vault's back\<close>














section \<open>Password rotation\<close>


















end
